theory Spec2Isabelle
  imports Complex_Main "HOL-Library.Sublist"
begin

section \<open>The image dataset augmenter (augment_ds.py)\<close>

text \<open>
  The program walks an input tree, and for every recognised image writes eight
  augmented variants (and, optionally, a copy of the original) into a mirrored
  output tree. Its own logic is the colour normalisation, the fixed list of
  augmentations, the choice of encoder format and save options, and the walker
  with its two \<^verbatim>\<open>try\<close> blocks.

  Everything below the program's own logic belongs to libraries: \<^verbatim>\<open>pathlib\<close>,
  \<^verbatim>\<open>shutil\<close> and Pillow. Their pure, documented parts (path arithmetic, the
  suffix of a name, \<^verbatim>\<open>str.lower\<close> on ASCII) are written out. Their
  effectful parts are a parameter of the model, the record \<open>env\<close>: which calls
  raise, what the decoder and the filters compute, which bytes the encoder
  produces. A theorem that holds for every \<open>env\<close> holds for whatever the
  libraries and the file system do; within one run the outcome of a call is a
  function of its arguments.

  Exceptions are values of type \<open>exn\<close>. Every exception of the model is an
  instance of Python's \<^verbatim>\<open>Exception\<close>, the class both handlers of
  \<^verbatim>\<open>process_dataset\<close> name; \<^verbatim>\<open>KeyboardInterrupt\<close> and
  \<^verbatim>\<open>SystemExit\<close> are outside the model.
\<close>

subsection \<open>Exceptions, paths and strings\<close>

datatype exn = ValueError string | OSError string | ImageError string

type_synonym path = "string list"

type_synonym bytes = "nat list"

text \<open>
  A path is the list of its components. \<^verbatim>\<open>p.relative_to(other)\<close> raises
  \<^verbatim>\<open>ValueError\<close> unless \<open>other\<close> is a prefix of \<open>p\<close>; \<^verbatim>\<open>a / b\<close> appends;
  \<^verbatim>\<open>p.parent\<close> drops the last component; \<^verbatim>\<open>p.name\<close> is the last
  component.
\<close>

definition relative_to :: "path \<Rightarrow> path \<Rightarrow> exn + path" where
  "relative_to p other =
     (if take (length other) p = other then Inr (drop (length other) p)
      else Inl (ValueError ''is not in the subpath''))"

definition joinpath :: "path \<Rightarrow> path \<Rightarrow> path" where
  "joinpath a b = a @ b"

definition parent :: "path \<Rightarrow> path" where
  "parent p = butlast p"

definition path_name :: "path \<Rightarrow> string" where
  "path_name p = (if p = [] then [] else last p)"

text \<open>
  \<^verbatim>\<open>PurePath.suffix\<close> and \<^verbatim>\<open>PurePath.stem\<close> (Python 3.4 to 3.13): with
  \<open>i\<close> the index of the last dot of the name, the suffix is \<^verbatim>\<open>name[i:]\<close> and
  the stem is \<^verbatim>\<open>name[:i]\<close> when \<open>0 < i < len(name) - 1\<close>; otherwise the
  suffix is empty and the stem is the whole name. \<open>after_dot\<close> is the text
  behind the last dot, so \<open>i = length name - Suc (length (after_dot name))\<close>.
\<close>

definition after_dot :: "string \<Rightarrow> string" where
  "after_dot name = rev (takeWhile (\<lambda>c. c \<noteq> CHR ''.'') (rev name))"

definition has_suffix :: "string \<Rightarrow> bool" where
  "has_suffix name =
     (CHR ''.'' \<in> set name \<and> after_dot name \<noteq> [] \<and>
      0 < length name - Suc (length (after_dot name)))"

definition py_suffix :: "string \<Rightarrow> string" where
  "py_suffix name = (if has_suffix name then CHR ''.'' # after_dot name else [])"

definition py_stem :: "string \<Rightarrow> string" where
  "py_stem name =
     (if has_suffix name then take (length name - Suc (length (after_dot name))) name
      else name)"

text \<open>\<^verbatim>\<open>str.lower\<close> on ASCII text: each of \<open>A\<close> to \<open>Z\<close> becomes its small letter.\<close>

definition lower_char :: "char \<Rightarrow> char" where
  "lower_char c =
     (case map_of (zip ''ABCDEFGHIJKLMNOPQRSTUVWXYZ'' ''abcdefghijklmnopqrstuvwxyz'') c of
        Some d \<Rightarrow> d
      | None \<Rightarrow> c)"

definition str_lower :: "string \<Rightarrow> string" where
  "str_lower s = map lower_char s"

subsection \<open>Images and the object store\<close>

text \<open>
  A Pillow image has a mode, a size and pixel data. Image objects live in a
  store: \<^verbatim>\<open>convert\<close>, \<^verbatim>\<open>getchannel\<close>, \<^verbatim>\<open>Image.new\<close> and every
  transform return a new object, \<^verbatim>\<open>paste\<close> and \<^verbatim>\<open>load\<close> change the
  object they are called on. A reference is the object's address; \<open>next_ref\<close>
  is the first address not yet in use.
\<close>

record image =
  im_mode :: string
  im_size :: "nat \<times> nat"
  im_data :: "nat list"

record heap =
  objs :: "nat \<Rightarrow> image"
  next_ref :: nat

definition empty_image :: image where
  "empty_image = \<lparr>im_mode = [], im_size = (0, 0), im_data = []\<rparr>"

definition heap0 :: heap where
  "heap0 = \<lparr>objs = (\<lambda>_. empty_image), next_ref = 0\<rparr>"

definition alloc :: "image \<Rightarrow> heap \<Rightarrow> nat \<times> heap" where
  "alloc im h = (next_ref h, h\<lparr>objs := (objs h)(next_ref h := im), next_ref := Suc (next_ref h)\<rparr>)"

subsection \<open>The environment: file system and imaging library\<close>

record env =
  rglob :: "path \<Rightarrow> path list"
  is_file :: "path \<Rightarrow> bool"
  mkdir_fault :: "path \<Rightarrow> exn option"
  copy2_fault :: "path \<Rightarrow> path \<Rightarrow> exn option"
  file_bytes :: "path \<Rightarrow> bytes"
  write_fault :: "path \<Rightarrow> bytes \<Rightarrow> exn option"
  pil_open :: "path \<Rightarrow> exn + image"
  pil_load :: "image \<Rightarrow> exn + image"
  pil_convert :: "image \<Rightarrow> string \<Rightarrow> exn + nat list"
  pil_getchannel :: "image \<Rightarrow> string \<Rightarrow> exn + nat list"
  pil_paste :: "image \<Rightarrow> image \<Rightarrow> image \<Rightarrow> exn + nat list"
  pil_mirror :: "image \<Rightarrow> exn + image"
  pil_flip :: "image \<Rightarrow> exn + image"
  pil_rotate :: "image \<Rightarrow> int \<Rightarrow> bool \<Rightarrow> exn + image"
  pil_brightness :: "image \<Rightarrow> real \<Rightarrow> exn + image"
  pil_contrast :: "image \<Rightarrow> real \<Rightarrow> exn + image"
  pil_sharpness :: "image \<Rightarrow> real \<Rightarrow> exn + image"
  pil_blur :: "image \<Rightarrow> exn + image"
  pil_save :: "image \<Rightarrow> string \<Rightarrow> nat option \<Rightarrow> bool \<Rightarrow> exn + bytes"

text \<open>
  The library calls on store objects. \<^verbatim>\<open>Image.new(mode, size, color)\<close> fills
  every pixel with the colour. \<^verbatim>\<open>img.convert(m)\<close> returns a new image of mode
  \<open>m\<close> and the same size; \<^verbatim>\<open>img.getchannel(c)\<close> a new single-band image
  (mode \<open>L\<close>); \<^verbatim>\<open>base.paste(src, mask=m)\<close> changes the pixels of \<open>base\<close> in
  place and nothing else.
\<close>

definition Image_new :: "string \<Rightarrow> nat \<times> nat \<Rightarrow> nat list \<Rightarrow> heap \<Rightarrow> nat \<times> heap" where
  "Image_new m sz color h =
     alloc \<lparr>im_mode = m, im_size = sz, im_data = concat (replicate (fst sz * snd sz) color)\<rparr> h"

definition Image_convert :: "env \<Rightarrow> nat \<Rightarrow> string \<Rightarrow> heap \<Rightarrow> exn + nat \<times> heap" where
  "Image_convert E r m h =
     (case pil_convert E (objs h r) m of
        Inl e \<Rightarrow> Inl e
      | Inr d \<Rightarrow> Inr (alloc \<lparr>im_mode = m, im_size = im_size (objs h r), im_data = d\<rparr> h))"

definition Image_getchannel :: "env \<Rightarrow> nat \<Rightarrow> string \<Rightarrow> heap \<Rightarrow> exn + nat \<times> heap" where
  "Image_getchannel E r c h =
     (case pil_getchannel E (objs h r) c of
        Inl e \<Rightarrow> Inl e
      | Inr d \<Rightarrow> Inr (alloc \<lparr>im_mode = ''L'', im_size = im_size (objs h r), im_data = d\<rparr> h))"

definition Image_paste :: "env \<Rightarrow> nat \<Rightarrow> nat \<Rightarrow> nat \<Rightarrow> heap \<Rightarrow> exn + heap" where
  "Image_paste E base src msk h =
     (case pil_paste E (objs h base) (objs h src) (objs h msk) of
        Inl e \<Rightarrow> Inl e
      | Inr d \<Rightarrow> Inr (h\<lparr>objs := (objs h)(base := (objs h base)\<lparr>im_data := d\<rparr>)\<rparr>))"

definition Image_open :: "env \<Rightarrow> path \<Rightarrow> heap \<Rightarrow> exn + nat \<times> heap" where
  "Image_open E p h =
     (case pil_open E p of Inl e \<Rightarrow> Inl e | Inr im \<Rightarrow> Inr (alloc im h))"

definition Image_load :: "env \<Rightarrow> nat \<Rightarrow> heap \<Rightarrow> exn + heap" where
  "Image_load E r h =
     (case pil_load E (objs h r) of
        Inl e \<Rightarrow> Inl e
      | Inr im \<Rightarrow> Inr (h\<lparr>objs := (objs h)(r := im)\<rparr>))"

subsection \<open>convert_rgb\<close>

definition default_background :: "nat list" where
  "default_background = [255, 255, 255]"

definition convert_rgb :: "env \<Rightarrow> nat \<Rightarrow> nat list \<Rightarrow> heap \<Rightarrow> exn + nat \<times> heap" where
  "convert_rgb E img background h =
     (let mode = im_mode (objs h img) in
      if mode = ''RGB'' then Inr (img, h)
      else if mode \<in> {''RGBA'', ''LA''} then
        (case Image_new ''RGB'' (im_size (objs h img)) background h of
           (base, h1) \<Rightarrow>
             (case Image_convert E img ''RGB'' h1 of
                Inl e \<Rightarrow> Inl e
              | Inr (rgb, h2) \<Rightarrow>
                  (case Image_getchannel E img ''A'' h2 of
                     Inl e \<Rightarrow> Inl e
                   | Inr (alpha, h3) \<Rightarrow>
                       (case Image_paste E base rgb alpha h3 of
                          Inl e \<Rightarrow> Inl e
                        | Inr h4 \<Rightarrow> Inr (base, h4)))))
      else Image_convert E img ''RGB'' h)"

subsection \<open>true_image\<close>

definition recognize_formats :: "string set" where
  "recognize_formats =
     {''.bmp'', ''.jpeg'', ''.jpg'', ''.png'', ''.tif'', ''.tiff'', ''.webp''}"

definition true_image :: "env \<Rightarrow> path \<Rightarrow> bool" where
  "true_image E p = (is_file E p \<and> str_lower (py_suffix (path_name p)) \<in> recognize_formats)"

subsection \<open>guarantee_rgb_for_jpeg\<close>

definition guarantee_rgb_for_jpeg :: "env \<Rightarrow> nat \<Rightarrow> string \<Rightarrow> heap \<Rightarrow> exn + nat \<times> heap" where
  "guarantee_rgb_for_jpeg E img ext h =
     (if ext \<in> {''.jpg'', ''.jpeg''} \<and> im_mode (objs h img) \<notin> {''RGB'', ''L''}
      then Image_convert E img ''RGB'' h
      else Inr (img, h))"

subsection \<open>augmentations\<close>

text \<open>
  The generator yields eight pairs of a name and the result of a library call.
  It is lazy: the call of a pair runs when the consumer asks for that pair. The
  model keeps the call itself, with the reference it is applied to, and
  \<open>eval_call\<close> runs it in the store of that moment. \<open>Image_rotate r a x\<close> is
  \<^verbatim>\<open>img.rotate(a, expand=x)\<close>: Pillow rotates by \<open>a\<close> degrees counter-clockwise
  and with \<open>expand\<close> enlarges the canvas to hold the whole result.
  \<^verbatim>\<open>ImageOps.mirror\<close> flips left to right, \<^verbatim>\<open>ImageOps.flip\<close> top to bottom.
\<close>

datatype pil_call =
    ImageOps_mirror nat
  | ImageOps_flip nat
  | Image_rotate nat int bool
  | Brightness_enhance nat real
  | Contrast_enhance nat real
  | Sharpness_enhance nat real
  | Filter_BLUR nat

definition augmentations :: "nat \<Rightarrow> (string \<times> pil_call) list" where
  "augmentations img =
     [(''flipHorizontal'', ImageOps_mirror img),
      (''flipVertical'', ImageOps_flip img),
      (''rotate90degrees'', Image_rotate img 90 True),
      (''rotate270'', Image_rotate img 270 True),
      (''bright125'', Brightness_enhance img (150 / 100)),
      (''contrast125'', Contrast_enhance img (150 / 100)),
      (''sharp150'', Sharpness_enhance img (15 / 10)),
      (''blur'', Filter_BLUR img)]"

fun call_arg :: "pil_call \<Rightarrow> nat" where
  "call_arg (ImageOps_mirror r) = r"
| "call_arg (ImageOps_flip r) = r"
| "call_arg (Image_rotate r a x) = r"
| "call_arg (Brightness_enhance r f) = r"
| "call_arg (Contrast_enhance r f) = r"
| "call_arg (Sharpness_enhance r f) = r"
| "call_arg (Filter_BLUR r) = r"

fun call_result :: "env \<Rightarrow> pil_call \<Rightarrow> image \<Rightarrow> exn + image" where
  "call_result E (ImageOps_mirror r) im = pil_mirror E im"
| "call_result E (ImageOps_flip r) im = pil_flip E im"
| "call_result E (Image_rotate r a x) im = pil_rotate E im a x"
| "call_result E (Brightness_enhance r f) im = pil_brightness E im f"
| "call_result E (Contrast_enhance r f) im = pil_contrast E im f"
| "call_result E (Sharpness_enhance r f) im = pil_sharpness E im f"
| "call_result E (Filter_BLUR r) im = pil_blur E im"

definition eval_call :: "env \<Rightarrow> pil_call \<Rightarrow> heap \<Rightarrow> exn + nat \<times> heap" where
  "eval_call E c h =
     (case call_result E c (objs h (call_arg c)) of
        Inl e \<Rightarrow> Inl e
      | Inr im \<Rightarrow> Inr (alloc im h))"

subsection \<open>save_image\<close>

definition format_table :: "(string \<times> string) list" where
  "format_table =
     [(''.jpg'', ''JPEG''), (''.jpeg'', ''JPEG''), (''.png'', ''PNG''), (''.bmp'', ''BMP''),
      (''.tif'', ''TIFF''), (''.tiff'', ''TIFF''), (''.webp'', ''WEBP'')]"

definition save_format :: "string \<Rightarrow> string" where
  "save_format ext =
     (case map_of format_table (str_lower ext) of None \<Rightarrow> ''PNG'' | Some fmt \<Rightarrow> fmt)"

definition save_image :: "env \<Rightarrow> image \<Rightarrow> string \<Rightarrow> exn + bytes" where
  "save_image E im ext =
     (let fmt = save_format ext in
      if fmt = ''JPEG'' then pil_save E im fmt (Some 95) True
      else pil_save E im fmt None False)"

subsection \<open>The output file system, the console and the counters\<close>

text \<open>
  The state of a run: the files and directories the run has created, the
  history of its successful effects (every \<^verbatim>\<open>mkdir\<close>, \<^verbatim>\<open>copy2\<close>,
  \<^verbatim>\<open>write_bytes\<close> and \<^verbatim>\<open>print\<close>, in order), and the two counters of
  \<^verbatim>\<open>process_dataset\<close>. The input tree is read through \<open>env\<close>. A call that
  raises leaves the state as it was. Closing the image at the end of the
  \<^verbatim>\<open>with\<close> block has no effect on this state and is left out.

  Two kinds of call are taken to succeed. Writing to the console: \<open>print\<close>
  only extends the history, although Python's \<^verbatim>\<open>print\<close> raises when the
  console cannot encode the text, also inside the two handlers. And discovery:
  \<open>rglob\<close> and \<open>is_file\<close> are total, although walking the tree and
  \<^verbatim>\<open>Path.is_file\<close> can raise. So the theorems say nothing of a run in
  which one of these calls raises.
\<close>

datatype diag =
    NoImagesFound path
  | CopyFailed path exn
  | Skipping path exn
  | Completed path
  | DataCounts nat nat

datatype event =
    Mkdir path
  | Copy2 path path
  | WriteBytes path bytes
  | Print diag

record state =
  files :: "path \<Rightarrow> bytes option"
  dirs :: "path set"
  trace :: "event list"
  num_originals :: nat
  num_augmented :: nat

definition print :: "diag \<Rightarrow> state \<Rightarrow> state" where
  "print d st = st\<lparr>trace := trace st @ [Print d]\<rparr>"

text \<open>\<^verbatim>\<open>p.mkdir(parents=True, exist_ok=True)\<close> creates \<open>p\<close> and every ancestor.\<close>

definition mkdir_parents :: "env \<Rightarrow> path \<Rightarrow> state \<Rightarrow> exn + state" where
  "mkdir_parents E p st =
     (case mkdir_fault E p of
        Some e \<Rightarrow> Inl e
      | None \<Rightarrow> Inr (st\<lparr>dirs := dirs st \<union> set (prefixes p), trace := trace st @ [Mkdir p]\<rparr>))"

definition shutil_copy2 :: "env \<Rightarrow> path \<Rightarrow> path \<Rightarrow> state \<Rightarrow> exn + state" where
  "shutil_copy2 E src dst st =
     (case copy2_fault E src dst of
        Some e \<Rightarrow> Inl e
      | None \<Rightarrow>
          Inr (st\<lparr>files := (files st)(dst \<mapsto> file_bytes E src),
                  trace := trace st @ [Copy2 src dst]\<rparr>))"

definition write_bytes :: "env \<Rightarrow> path \<Rightarrow> bytes \<Rightarrow> state \<Rightarrow> exn + state" where
  "write_bytes E p data st =
     (case write_fault E p data of
        Some e \<Rightarrow> Inl e
      | None \<Rightarrow>
          Inr (st\<lparr>files := (files st)(p \<mapsto> data), trace := trace st @ [WriteBytes p data]\<rparr>))"

subsection \<open>process_dataset\<close>

text \<open>The name of a variant file: \<^verbatim>\<open>f"{src.stem}__{suffix}{ext}"\<close>.\<close>

definition out_name :: "string \<Rightarrow> string \<Rightarrow> string \<Rightarrow> string" where
  "out_name stem tag ext = stem @ ''__'' @ tag @ ext"

text \<open>
  The inner \<^verbatim>\<open>for\<close> loop over the generator. An exception leaves the loop at
  once, with the state reached so far; \<open>None\<close> is the normal end.
\<close>

fun write_variants ::
  "env \<Rightarrow> path \<Rightarrow> string \<Rightarrow> string \<Rightarrow> (string \<times> pil_call) list \<Rightarrow> heap \<Rightarrow> state
     \<Rightarrow> exn option \<times> state" where
  "write_variants E dest_dir stem ext [] h st = (None, st)"
| "write_variants E dest_dir stem ext ((tag, c) # rest) h st =
     (case eval_call E c h of
        Inl e \<Rightarrow> (Some e, st)
      | Inr (aug, h1) \<Rightarrow>
          (case guarantee_rgb_for_jpeg E aug ext h1 of
             Inl e \<Rightarrow> (Some e, st)
           | Inr (aug', h2) \<Rightarrow>
               (case save_image E (objs h2 aug') ext of
                  Inl e \<Rightarrow> (Some e, st)
                | Inr data \<Rightarrow>
                    (case write_bytes E (joinpath dest_dir [out_name stem tag ext]) data st of
                       Inl e \<Rightarrow> (Some e, st)
                     | Inr st1 \<Rightarrow>
                         write_variants E dest_dir stem ext rest h2
                           (st1\<lparr>num_augmented := num_augmented st1 + 1\<rparr>)))))"

text \<open>The body of the second \<^verbatim>\<open>try\<close>: open, load, normalise, write the variants.\<close>

definition augment_body :: "env \<Rightarrow> path \<Rightarrow> path \<Rightarrow> state \<Rightarrow> exn option \<times> state" where
  "augment_body E src dest_dir st =
     (case Image_open E src heap0 of
        Inl e \<Rightarrow> (Some e, st)
      | Inr (im, h0) \<Rightarrow>
          (case Image_load E im h0 of
             Inl e \<Rightarrow> (Some e, st)
           | Inr h1 \<Rightarrow>
               (let ext = str_lower (py_suffix (path_name src)) in
                case convert_rgb E im default_background h1 of
                  Inl e \<Rightarrow> (Some e, st)
                | Inr (base, h2) \<Rightarrow>
                    write_variants E dest_dir (py_stem (path_name src)) ext
                      (augmentations base) h2 st)))"

definition augment_step :: "env \<Rightarrow> path \<Rightarrow> path \<Rightarrow> state \<Rightarrow> state" where
  "augment_step E src dest_dir st =
     (case augment_body E src dest_dir st of
        (None, st') \<Rightarrow> st'
      | (Some e, st') \<Rightarrow> print (Skipping src e) st')"

text \<open>The first \<^verbatim>\<open>try\<close>: the copy of the original, when it is asked for.\<close>

definition copy_step :: "env \<Rightarrow> bool \<Rightarrow> path \<Rightarrow> path \<Rightarrow> state \<Rightarrow> state" where
  "copy_step E copy_originals src dest_dir st =
     (if copy_originals then
        (case shutil_copy2 E src (joinpath dest_dir [path_name src]) st of
           Inr st1 \<Rightarrow> st1\<lparr>num_originals := num_originals st1 + 1\<rparr>
         | Inl e \<Rightarrow> print (CopyFailed src e) st)
      else st)"

text \<open>
  One round of the outer loop. \<^verbatim>\<open>relative_to\<close> and \<^verbatim>\<open>mkdir\<close> stand
  outside both \<^verbatim>\<open>try\<close> blocks: \<open>Some e\<close> is an exception that leaves
  \<^verbatim>\<open>process_dataset\<close>.
\<close>

definition process_file ::
  "env \<Rightarrow> path \<Rightarrow> path \<Rightarrow> bool \<Rightarrow> path \<Rightarrow> state \<Rightarrow> exn option \<times> state" where
  "process_file E input_dir output_dir copy_originals src st =
     (case relative_to src input_dir of
        Inl e \<Rightarrow> (Some e, st)
      | Inr rel \<Rightarrow>
          (let dest_dir = parent (joinpath output_dir rel) in
           case mkdir_parents E dest_dir st of
             Inl e \<Rightarrow> (Some e, st)
           | Inr st1 \<Rightarrow>
               (None, augment_step E src dest_dir (copy_step E copy_originals src dest_dir st1))))"

fun process_files ::
  "env \<Rightarrow> path \<Rightarrow> path \<Rightarrow> bool \<Rightarrow> path list \<Rightarrow> state \<Rightarrow> exn option \<times> state" where
  "process_files E input_dir output_dir copy_originals [] st = (None, st)"
| "process_files E input_dir output_dir copy_originals (src # rest) st =
     (case process_file E input_dir output_dir copy_originals src st of
        (Some e, st') \<Rightarrow> (Some e, st')
      | (None, st') \<Rightarrow> process_files E input_dir output_dir copy_originals rest st')"

datatype outcome = Returned int | Raised exn

definition discover :: "env \<Rightarrow> path \<Rightarrow> path list" where
  "discover E input_dir = filter (true_image E) (rglob E input_dir)"

definition process_dataset ::
  "env \<Rightarrow> path \<Rightarrow> path \<Rightarrow> bool \<Rightarrow> state \<Rightarrow> outcome \<times> state" where
  "process_dataset E input_dir output_dir copy_originals st =
     (let images = discover E input_dir in
      if images = [] then (Returned 1, print (NoImagesFound input_dir) st)
      else
        (case process_files E input_dir output_dir copy_originals images
                (st\<lparr>num_originals := 0, num_augmented := 0\<rparr>) of
           (Some e, st') \<Rightarrow> (Raised e, st')
         | (None, st') \<Rightarrow>
             (Returned 0,
              print (DataCounts (num_originals st') (num_augmented st'))
                (print (Completed output_dir) st'))))"

subsection \<open>Effects as events\<close>

text \<open>
  \<open>replay\<close> is the effect of one successful call on the state, counters
  included: the program adds one to \<open>num_originals\<close> after a copy and one to
  \<open>num_augmented\<close> after a \<^verbatim>\<open>write_bytes\<close>. \<open>after E st evs\<close> is the state
  reached from \<open>st\<close> by the events \<open>evs\<close>. The theorems describe what a part
  of the program does by naming the events it adds.
\<close>

fun replay :: "env \<Rightarrow> event \<Rightarrow> state \<Rightarrow> state" where
  "replay E (Mkdir p) st = st\<lparr>dirs := dirs st \<union> set (prefixes p)\<rparr>"
| "replay E (Copy2 src dst) st =
     st\<lparr>files := (files st)(dst \<mapsto> file_bytes E src), num_originals := num_originals st + 1\<rparr>"
| "replay E (WriteBytes p data) st =
     st\<lparr>files := (files st)(p \<mapsto> data), num_augmented := num_augmented st + 1\<rparr>"
| "replay E (Print d) st = st"

definition after :: "env \<Rightarrow> state \<Rightarrow> event list \<Rightarrow> state" where
  "after E st evs = (fold (replay E) evs st)\<lparr>trace := trace st @ evs\<rparr>"

fun is_write :: "event \<Rightarrow> bool" where
  "is_write (WriteBytes p data) = True"
| "is_write ev = False"

fun is_copy :: "event \<Rightarrow> bool" where
  "is_copy (Copy2 src dst) = True"
| "is_copy ev = False"

definition count_writes :: "event list \<Rightarrow> nat" where
  "count_writes evs = length (filter is_write evs)"

definition count_copies :: "event list \<Rightarrow> nat" where
  "count_copies evs = length (filter is_copy evs)"

text \<open>The path a file event creates; \<open>None\<close> for the other events.\<close>

fun created :: "event \<Rightarrow> path option" where
  "created (Copy2 src dst) = Some dst"
| "created (WriteBytes p data) = Some p"
| "created ev = None"

text \<open>
  The eight tags, and the write events of the variants of one source: one per
  encoded variant, in the order of the tags.
\<close>

definition variant_tags :: "string list" where
  "variant_tags =
     [''flipHorizontal'', ''flipVertical'', ''rotate90degrees'', ''rotate270'',
      ''bright125'', ''contrast125'', ''sharp150'', ''blur'']"

definition variant_writes :: "path \<Rightarrow> string \<Rightarrow> string \<Rightarrow> string list \<Rightarrow> bytes list \<Rightarrow> event list" where
  "variant_writes dest_dir stem ext tags datas =
     map (\<lambda>(tag, data). WriteBytes (joinpath dest_dir [out_name stem tag ext]) data)
       (zip tags datas)"

definition copy_events :: "env \<Rightarrow> bool \<Rightarrow> path \<Rightarrow> path \<Rightarrow> event list" where
  "copy_events E copy_originals src dest_dir =
     (if copy_originals then
        (case copy2_fault E src (joinpath dest_dir [path_name src]) of
           None \<Rightarrow> [Copy2 src (joinpath dest_dir [path_name src])]
         | Some e \<Rightarrow> [Print (CopyFailed src e)])
      else [])"

definition skip_events :: "path \<Rightarrow> exn option \<Rightarrow> event list" where
  "skip_events src x = (case x of None \<Rightarrow> [] | Some e \<Rightarrow> [Print (Skipping src e)])"

text \<open>
  The exception, if any, of the two calls of a round that stand outside the
  \<^verbatim>\<open>try\<close> blocks, and the first such exception over a list of sources.
\<close>

definition prep_error :: "env \<Rightarrow> path \<Rightarrow> path \<Rightarrow> path \<Rightarrow> exn option" where
  "prep_error E input_dir output_dir src =
     (case relative_to src input_dir of
        Inl e \<Rightarrow> Some e
      | Inr rel \<Rightarrow> mkdir_fault E (parent (joinpath output_dir rel)))"

fun first_prep_error :: "env \<Rightarrow> path \<Rightarrow> path \<Rightarrow> path list \<Rightarrow> exn option" where
  "first_prep_error E input_dir output_dir [] = None"
| "first_prep_error E input_dir output_dir (src # rest) =
     (case prep_error E input_dir output_dir src of
        Some e \<Rightarrow> Some e
      | None \<Rightarrow> first_prep_error E input_dir output_dir rest)"

subsection \<open>What the colour normalisation is meant to compute\<close>

text \<open>
  The specification's words for \<^verbatim>\<open>convert_rgb\<close>, as a function on image
  values: an RGB image stays as it is; an image with an alpha band (RGBA, LA)
  is laid over an opaque background of the given colour, its alpha band the
  paste mask; every other image is converted to RGB.
\<close>

definition solid_image :: "string \<Rightarrow> nat \<times> nat \<Rightarrow> nat list \<Rightarrow> image" where
  "solid_image m sz color =
     \<lparr>im_mode = m, im_size = sz, im_data = concat (replicate (fst sz * snd sz) color)\<rparr>"

definition converted :: "env \<Rightarrow> image \<Rightarrow> string \<Rightarrow> exn + image" where
  "converted E im m =
     (case pil_convert E im m of
        Inl e \<Rightarrow> Inl e
      | Inr d \<Rightarrow> Inr \<lparr>im_mode = m, im_size = im_size im, im_data = d\<rparr>)"

definition composite_over :: "env \<Rightarrow> nat list \<Rightarrow> image \<Rightarrow> exn + image" where
  "composite_over E background im =
     (case converted E im ''RGB'' of
        Inl e \<Rightarrow> Inl e
      | Inr rgb \<Rightarrow>
          (case pil_getchannel E im ''A'' of
             Inl e \<Rightarrow> Inl e
           | Inr a \<Rightarrow>
               (case pil_paste E (solid_image ''RGB'' (im_size im) background) rgb
                       \<lparr>im_mode = ''L'', im_size = im_size im, im_data = a\<rparr> of
                  Inl e \<Rightarrow> Inl e
                | Inr d \<Rightarrow> Inr \<lparr>im_mode = ''RGB'', im_size = im_size im, im_data = d\<rparr>)))"

definition normalize_spec :: "env \<Rightarrow> nat list \<Rightarrow> image \<Rightarrow> exn + image" where
  "normalize_spec E background im =
     (if im_mode im = ''RGB'' then Inr im
      else if im_mode im = ''RGBA'' \<or> im_mode im = ''LA'' then composite_over E background im
      else converted E im ''RGB'')"

subsection \<open>One variant, from the base image to the bytes\<close>

text \<open>
  What one round of the inner loop computes before it writes, as a function on
  image values: the library call on the base image, the JPEG guard, the encoder.
\<close>

definition jpeg_safe :: "env \<Rightarrow> image \<Rightarrow> string \<Rightarrow> exn + image" where
  "jpeg_safe E im ext =
     (if (ext = ''.jpg'' \<or> ext = ''.jpeg'') \<and> im_mode im \<noteq> ''RGB'' \<and> im_mode im \<noteq> ''L''
      then converted E im ''RGB'' else Inr im)"

definition variant_bytes :: "env \<Rightarrow> string \<Rightarrow> image \<Rightarrow> pil_call \<Rightarrow> exn + bytes" where
  "variant_bytes E ext base c =
     (case call_result E c base of
        Inl e \<Rightarrow> Inl e
      | Inr t \<Rightarrow>
          (case jpeg_safe E t ext of
             Inl e \<Rightarrow> Inl e
           | Inr v \<Rightarrow> save_image E v ext))"

text \<open>
  The generator run to its end, as \<^verbatim>\<open>list(augmentations(base))\<close> does: each
  call runs in the store the earlier calls left, and the images are read as
  they are yielded. \<open>all_or_first_error\<close> is the list of results when none is
  an exception, and the first exception otherwise.
\<close>

fun drain :: "env \<Rightarrow> (string \<times> pil_call) list \<Rightarrow> heap \<Rightarrow> exn + (string \<times> image) list" where
  "drain E [] h = Inr []"
| "drain E ((tag, c) # rest) h =
     (case eval_call E c h of
        Inl e \<Rightarrow> Inl e
      | Inr (r, h1) \<Rightarrow>
          (case drain E rest h1 of
             Inl e \<Rightarrow> Inl e
           | Inr out \<Rightarrow> Inr ((tag, objs h1 r) # out)))"

fun all_or_first_error :: "(string \<times> (exn + image)) list \<Rightarrow> exn + (string \<times> image) list" where
  "all_or_first_error [] = Inr []"
| "all_or_first_error ((tag, Inl e) # rest) = Inl e"
| "all_or_first_error ((tag, Inr im) # rest) =
     (case all_or_first_error rest of
        Inl e \<Rightarrow> Inl e
      | Inr out \<Rightarrow> Inr ((tag, im) # out))"

subsection \<open>Two runs into two output roots\<close>

text \<open>
  \<open>same_tree\<close>: under the two roots the same relative paths are files, with the
  same bytes, and the same relative paths are directories. \<open>alike\<close> adds that
  the counters agree. \<open>root_independent\<close>: the file system treats the two
  roots alike, a call on a path under one root raises exactly what the same
  call on the corresponding path under the other root raises.
\<close>

definition same_tree :: "path \<Rightarrow> path \<Rightarrow> state \<Rightarrow> state \<Rightarrow> bool" where
  "same_tree out1 out2 st1 st2 =
     (\<forall>r. files st1 (joinpath out1 r) = files st2 (joinpath out2 r)
          \<and> (joinpath out1 r \<in> dirs st1) = (joinpath out2 r \<in> dirs st2))"

definition alike :: "path \<Rightarrow> path \<Rightarrow> state \<Rightarrow> state \<Rightarrow> bool" where
  "alike out1 out2 st1 st2 =
     (same_tree out1 out2 st1 st2 \<and> num_originals st1 = num_originals st2
      \<and> num_augmented st1 = num_augmented st2)"

definition root_independent :: "env \<Rightarrow> path \<Rightarrow> path \<Rightarrow> bool" where
  "root_independent E out1 out2 =
     (\<forall>r. mkdir_fault E (joinpath out1 r) = mkdir_fault E (joinpath out2 r)
          \<and> (\<forall>s. copy2_fault E s (joinpath out1 r) = copy2_fault E s (joinpath out2 r))
          \<and> (\<forall>b. write_fault E (joinpath out1 r) b = write_fault E (joinpath out2 r) b))"

subsection \<open>A concrete environment\<close>

text \<open>
  A small input tree, used to run the definitions: a directory \<open>photos\<close> with
  the RGBA image \<open>car.PNG\<close>, and a text file. No call raises. The library
  functions are simple stand-ins on a one-pixel image.
\<close>

definition demo_image :: image where
  "demo_image = \<lparr>im_mode = ''RGBA'', im_size = (1, 1), im_data = [10, 20, 30, 0]\<rparr>"

definition demo_env :: env where
  "demo_env =
     \<lparr>rglob = (\<lambda>d. [d @ [''photos''], d @ [''photos'', ''car.PNG''], d @ [''notes.txt'']]),
      is_file = (\<lambda>p. path_name p \<noteq> ''photos''),
      mkdir_fault = (\<lambda>p. None),
      copy2_fault = (\<lambda>p q. None),
      file_bytes = (\<lambda>p. [1, 2, 3]),
      write_fault = (\<lambda>p d. None),
      pil_open = (\<lambda>p. Inr demo_image),
      pil_load = (\<lambda>im. Inr im),
      pil_convert = (\<lambda>im m. Inr (take 3 (im_data im))),
      pil_getchannel = (\<lambda>im c. Inr (drop 3 (im_data im))),
      pil_paste = (\<lambda>b s m. Inr (if im_data m = [0] then im_data b else im_data s)),
      pil_mirror = (\<lambda>im. Inr im),
      pil_flip = (\<lambda>im. Inr im),
      pil_rotate = (\<lambda>im a x. Inr (im\<lparr>im_size := (snd (im_size im), fst (im_size im))\<rparr>)),
      pil_brightness = (\<lambda>im f. Inr im),
      pil_contrast = (\<lambda>im f. Inr im),
      pil_sharpness = (\<lambda>im f. Inr im),
      pil_blur = (\<lambda>im. Inr im),
      pil_save = (\<lambda>im fmt q opt. Inr (im_data im))\<rparr>"

definition demo_heap :: heap where
  "demo_heap = snd (alloc demo_image heap0)"

definition state0 :: state where
  "state0 = \<lparr>files = Map.empty, dirs = {}, trace = [], num_originals = 0, num_augmented = 0\<rparr>"

text \<open>
  The same tree where a call fails: the directory cannot be made; the fourth
  variant cannot be written; the image cannot be opened.
\<close>

definition mkdir_fail_env :: env where
  "mkdir_fail_env = demo_env\<lparr>mkdir_fault := (\<lambda>p. Some (OSError ''permission denied''))\<rparr>"

definition write_fail_env :: env where
  "write_fail_env =
     demo_env\<lparr>write_fault :=
       (\<lambda>p d. if path_name p = ''car__rotate270.png'' then Some (OSError ''disk full'') else None)\<rparr>"

definition open_fail_env :: env where
  "open_fail_env = demo_env\<lparr>pil_open := (\<lambda>p. Inl (ImageError ''cannot identify image file''))\<rparr>"

definition car :: path where
  "car = [''in'', ''photos'', ''car.PNG'']"

text \<open>
  The same library with an encoder whose bytes begin with the length of the
  format name and the quality, so that a run shows which format and options the
  encoder was given; and a JPEG source whose extension is in capitals.
\<close>

definition tagging_env :: env where
  "tagging_env =
     demo_env\<lparr>pil_save :=
       (\<lambda>im fmt q opt. Inr (length fmt # (case q of None \<Rightarrow> 0 | Some n \<Rightarrow> n) # im_data im))\<rparr>"

definition boat :: path where
  "boat = [''in'', ''boat.JPG'']"

section \<open>Properties\<close>

subsection \<open>Events and the state\<close>

lemma after_Nil: "after E st [] = st"
  by (simp add: after_def)

lemma replay_trace: "trace (replay E ev st) = trace st"
  by (cases ev) simp_all

lemma replay_trace_update: "replay E ev (st\<lparr>trace := t\<rparr>) = (replay E ev st)\<lparr>trace := t\<rparr>"
  by (cases ev) simp_all

lemma fold_replay_trace: "trace (fold (replay E) evs st) = trace st"
  by (induction evs arbitrary: st) (simp_all add: replay_trace)

lemma fold_replay_trace_update:
  "fold (replay E) evs (st\<lparr>trace := t\<rparr>) = (fold (replay E) evs st)\<lparr>trace := t\<rparr>"
  by (induction evs arbitrary: st) (simp_all add: replay_trace_update)

lemma after_append: "after E (after E st a) b = after E st (a @ b)"
  by (simp add: after_def fold_replay_trace fold_replay_trace_update)

lemma mkdir_parents_after:
  "mkdir_parents E p st = Inr st' \<Longrightarrow> st' = after E st [Mkdir p]"
  by (auto simp: mkdir_parents_def after_def split: option.splits)

lemma write_bytes_after:
  "write_bytes E p d st = Inr st1 \<Longrightarrow>
   st1\<lparr>num_augmented := num_augmented st1 + 1\<rparr> = after E st [WriteBytes p d]"
  by (auto simp: write_bytes_def after_def split: option.splits)

lemma shutil_copy2_after:
  "shutil_copy2 E src dst st = Inr st1 \<Longrightarrow>
   st1\<lparr>num_originals := num_originals st1 + 1\<rparr> = after E st [Copy2 src dst]"
  by (auto simp: shutil_copy2_def after_def split: option.splits)

lemma print_after: "print d st = after E st [Print d]"
  by (simp add: print_def after_def)

lemma copy_step_after: "copy_step E c src dest st = after E st (copy_events E c src dest)"
  by (auto simp: copy_step_def copy_events_def shutil_copy2_def after_def print_def
      split: option.splits)

lemma tags_of_augmentations: "map fst (augmentations b) = variant_tags"
  by (simp add: augmentations_def variant_tags_def)

lemma eval_call_frame:
  "eval_call E c h = Inr (r, h1) \<Longrightarrow>
   r = next_ref h \<and> next_ref h1 = Suc (next_ref h) \<and> (\<forall>x. x < next_ref h \<longrightarrow> objs h1 x = objs h x)
   \<and> call_result E c (objs h (call_arg c)) = Inr (objs h1 r)"
  by (auto simp: eval_call_def alloc_def split: sum.splits)

lemma guarantee_frame:
  "guarantee_rgb_for_jpeg E a ext h = Inr (r, h') \<Longrightarrow>
   next_ref h \<le> next_ref h' \<and> (\<forall>x. x < next_ref h \<longrightarrow> objs h' x = objs h x)"
  by (auto simp: guarantee_rgb_for_jpeg_def Image_convert_def alloc_def split: if_splits sum.splits)

lemma guarantee_value:
  "a < next_ref h \<Longrightarrow>
   (case guarantee_rgb_for_jpeg E a ext h of
      Inl e \<Rightarrow> jpeg_safe E (objs h a) ext = Inl e
    | Inr (r, h') \<Rightarrow> jpeg_safe E (objs h a) ext = Inr (objs h' r))"
  by (auto simp: guarantee_rgb_for_jpeg_def jpeg_safe_def converted_def Image_convert_def alloc_def
      split: if_splits sum.splits)

lemma jpeg_safe_mode:
  "jpeg_safe E im ext = Inr v \<Longrightarrow> ext = ''.jpg'' \<or> ext = ''.jpeg'' \<Longrightarrow>
   im_mode v = ''RGB'' \<or> im_mode v = ''L''"
  by (auto simp: jpeg_safe_def converted_def split: if_splits sum.splits)

lemma write_variants_after:
  assumes "write_variants E dest stem ext calls h st = (x, st')"
    and "\<forall>c\<in>set (map snd calls). call_arg c = b" and "b < next_ref h"
  shows "\<exists>datas. st' = after E st (variant_writes dest stem ext (map fst calls) datas)
     \<and> length datas \<le> length calls
     \<and> (x = None \<longleftrightarrow> length datas = length calls)
     \<and> list_all2 (\<lambda>c d. variant_bytes E ext (objs h b) c = Inr d)
          (take (length datas) (map snd calls)) datas"
  using assms
proof (induction calls arbitrary: h st)
  case Nil
  then show ?case by (simp add: variant_writes_def after_Nil)
next
  case (Cons a calls)
  obtain tag c where a: "a = (tag, c)" by (cases a)
  have stop: "\<exists>datas. st = after E st (variant_writes dest stem ext (map fst (a # calls)) datas)
     \<and> length datas \<le> length (a # calls)
     \<and> (Some e = None \<longleftrightarrow> length datas = length (a # calls))
     \<and> list_all2 (\<lambda>c d. variant_bytes E ext (objs h b) c = Inr d)
          (take (length datas) (map snd (a # calls))) datas" for e :: exn
    by (intro exI[of _ "[]"]) (simp add: variant_writes_def after_Nil)
  have cb: "call_arg c = b" using Cons.prems(2) a by simp
  show ?case
  proof (cases "eval_call E c h")
    case (Inl e)
    with Cons.prems a have "x = Some e" "st' = st" by simp_all
    then show ?thesis using stop by simp
  next
    case (Inr p1)
    obtain aug h1 where p1: "p1 = (aug, h1)" by (cases p1)
    note ev = eval_call_frame[OF Inr[unfolded p1]]
    have aug1: "aug < next_ref h1" using ev by simp
    show ?thesis
    proof (cases "guarantee_rgb_for_jpeg E aug ext h1")
      case (Inl e)
      with Cons.prems a Inr p1 have "x = Some e" "st' = st" by simp_all
      then show ?thesis using stop by simp
    next
      case g: (Inr p2)
      obtain aug' h2 where p2: "p2 = (aug', h2)" by (cases p2)
      note gf = guarantee_frame[OF g[unfolded p2]]
      have gv: "jpeg_safe E (objs h1 aug) ext = Inr (objs h2 aug')"
        using guarantee_value[OF aug1, of E ext] g p2 by simp
      have b2: "b < next_ref h2" "objs h2 b = objs h b"
        using ev gf Cons.prems(3) by auto
      show ?thesis
      proof (cases "save_image E (objs h2 aug') ext")
        case (Inl e)
        with Cons.prems a Inr p1 g p2 have "x = Some e" "st' = st" by simp_all
        then show ?thesis using stop by simp
      next
        case s: (Inr d)
        have vb: "variant_bytes E ext (objs h b) c = Inr d"
          using ev cb gv s by (simp add: variant_bytes_def)
        show ?thesis
        proof (cases "write_bytes E (joinpath dest [out_name stem tag ext]) d st")
          case (Inl e)
          with Cons.prems a Inr p1 g p2 s have "x = Some e" "st' = st" by simp_all
          then show ?thesis using stop by simp
        next
          case w: (Inr st1)
          let ?st2 = "st1\<lparr>num_augmented := num_augmented st1 + 1\<rparr>"
          have st2: "?st2 = after E st [WriteBytes (joinpath dest [out_name stem tag ext]) d]"
            using w by (rule write_bytes_after)
          from Cons.prems a Inr p1 g p2 s w
          have rec: "write_variants E dest stem ext calls h2 ?st2 = (x, st')" by simp
          have "\<forall>c\<in>set (map snd calls). call_arg c = b" using Cons.prems(2) by simp
          from Cons.IH[OF rec this b2(1)] obtain datas where
            D: "st' = after E ?st2 (variant_writes dest stem ext (map fst calls) datas)"
               "length datas \<le> length calls"
               "(x = None) = (length datas = length calls)"
               "list_all2 (\<lambda>c d. variant_bytes E ext (objs h2 b) c = Inr d)
                  (take (length datas) (map snd calls)) datas"
            by blast
          have "st' = after E st (variant_writes dest stem ext (map fst (a # calls)) (d # datas))"
            using D(1) st2 a by (simp add: after_append variant_writes_def)
          moreover have "length (d # datas) \<le> length (a # calls)" using D(2) by simp
          moreover have "(x = None) = (length (d # datas) = length (a # calls))" using D(3) by simp
          moreover have "list_all2 (\<lambda>c d. variant_bytes E ext (objs h b) c = Inr d)
                  (take (length (d # datas)) (map snd (a # calls))) (d # datas)"
            using D(4) vb a b2(2) by simp
          ultimately show ?thesis by blast
        qed
      qed
    qed
  qed
qed

lemma convert_rgb_frame:
  assumes "img < next_ref h"
  shows "case convert_rgb E img background h of
           Inl e \<Rightarrow> normalize_spec E background (objs h img) = Inl e
         | Inr (r, h') \<Rightarrow>
             normalize_spec E background (objs h img) = Inr (objs h' r)
             \<and> im_mode (objs h' r) = ''RGB''
             \<and> (\<forall>x. x < next_ref h \<longrightarrow> objs h' x = objs h x)
             \<and> next_ref h \<le> next_ref h' \<and> r < next_ref h'
             \<and> (im_mode (objs h img) = ''RGB'' \<longrightarrow> r = img \<and> h' = h)"
  using assms
  by (auto simp: convert_rgb_def normalize_spec_def composite_over_def converted_def
      Image_new_def Image_convert_def Image_getchannel_def Image_paste_def alloc_def
      solid_image_def Let_def split: sum.splits prod.splits)

subsection \<open>The walker, by its events\<close>

lemma augment_body_after:
  assumes "augment_body E src dest st = (x, st')"
  shows "\<exists>datas.
     st' = after E st (variant_writes dest (py_stem (path_name src))
                     (str_lower (py_suffix (path_name src))) variant_tags datas)
     \<and> length datas \<le> 8 \<and> (x = None \<longleftrightarrow> length datas = 8)
     \<and> (datas \<noteq> [] \<longrightarrow>
          (\<exists>im0 im base b. pil_open E src = Inr im0 \<and> pil_load E im0 = Inr im
             \<and> normalize_spec E default_background im = Inr base
             \<and> list_all2 (\<lambda>c d. variant_bytes E (str_lower (py_suffix (path_name src))) base c = Inr d)
                  (take (length datas) (map snd (augmentations b))) datas))"
proof -
  let ?stem = "py_stem (path_name src)" and ?ext = "str_lower (py_suffix (path_name src))"
  have stop: ?thesis if "x = Some e" "st' = st" for e
    using that by (intro exI[of _ "[]"]) (simp add: variant_writes_def after_Nil)
  show ?thesis
  proof (cases "pil_open E src")
    case (Inl e)
    then have "x = Some e" "st' = st"
      using assms by (simp_all add: augment_body_def Image_open_def)
    then show ?thesis by (rule stop)
  next
    case o: (Inr im0)
    define h0 where "h0 = snd (alloc im0 heap0)"
    have io: "Image_open E src heap0 = Inr (0, h0)"
      using o by (simp add: Image_open_def alloc_def heap0_def h0_def)
    have h0: "objs h0 0 = im0" "next_ref h0 = 1"
      by (simp_all add: h0_def alloc_def heap0_def)
    show ?thesis
    proof (cases "pil_load E im0")
      case (Inl e)
      then have "x = Some e" "st' = st"
        using assms io h0 by (simp_all add: augment_body_def Image_load_def)
      then show ?thesis by (rule stop)
    next
      case l: (Inr im)
      define h1 where "h1 = h0\<lparr>objs := (objs h0)(0 := im)\<rparr>"
      have il: "Image_load E 0 h0 = Inr h1"
        using l h0 by (simp add: Image_load_def h1_def)
      have h1: "objs h1 0 = im" "0 < next_ref h1" using h0 by (simp_all add: h1_def)
      note cf = convert_rgb_frame[OF h1(2), of E default_background]
      show ?thesis
      proof (cases "convert_rgb E 0 default_background h1")
        case (Inl e)
        then have "x = Some e" "st' = st"
          using assms io il by (simp_all add: augment_body_def)
        then show ?thesis by (rule stop)
      next
        case c: (Inr p)
        obtain b h2 where p: "p = (b, h2)" by (cases p)
        have base: "normalize_spec E default_background im = Inr (objs h2 b)" "b < next_ref h2"
          using cf c p h1 by simp_all
        have wv: "write_variants E dest ?stem ?ext (augmentations b) h2 st = (x, st')"
          using assms io il c p by (simp add: augment_body_def)
        have args: "\<forall>c\<in>set (map snd (augmentations b)). call_arg c = b"
          by (simp add: augmentations_def)
        from write_variants_after[OF wv args base(2)] obtain datas where
          D: "st' = after E st (variant_writes dest ?stem ?ext variant_tags datas)"
             "length datas \<le> 8" "(x = None) = (length datas = 8)"
             "list_all2 (\<lambda>c d. variant_bytes E ?ext (objs h2 b) c = Inr d)
                (take (length datas) (map snd (augmentations b))) datas"
          unfolding tags_of_augmentations by (auto simp: augmentations_def)
        have "\<exists>im0 im base b. pil_open E src = Inr im0 \<and> pil_load E im0 = Inr im
             \<and> normalize_spec E default_background im = Inr base
             \<and> list_all2 (\<lambda>c d. variant_bytes E ?ext base c = Inr d)
                  (take (length datas) (map snd (augmentations b))) datas"
          using o l base(1) D(4) by blast
        then show ?thesis using D(1,2,3) by blast
      qed
    qed
  qed
qed

lemma augment_step_after:
  "\<exists>datas.
     augment_step E src dest st =
       after E st (variant_writes dest (py_stem (path_name src))
                     (str_lower (py_suffix (path_name src))) variant_tags datas
                   @ skip_events src (fst (augment_body E src dest st)))
     \<and> length datas \<le> 8 \<and> (fst (augment_body E src dest st) = None \<longleftrightarrow> length datas = 8)
     \<and> (datas \<noteq> [] \<longrightarrow>
          (\<exists>im0 im base b. pil_open E src = Inr im0 \<and> pil_load E im0 = Inr im
             \<and> normalize_spec E default_background im = Inr base
             \<and> list_all2 (\<lambda>c d. variant_bytes E (str_lower (py_suffix (path_name src))) base c = Inr d)
                  (take (length datas) (map snd (augmentations b))) datas))"
proof -
  obtain x st' where b: "augment_body E src dest st = (x, st')" by force
  from augment_body_after[OF b] obtain datas where
    D: "st' = after E st (variant_writes dest (py_stem (path_name src))
                     (str_lower (py_suffix (path_name src))) variant_tags datas)"
     "length datas \<le> 8" "(x = None) = (length datas = 8)"
     "datas \<noteq> [] \<longrightarrow>
          (\<exists>im0 im base b. pil_open E src = Inr im0 \<and> pil_load E im0 = Inr im
             \<and> normalize_spec E default_background im = Inr base
             \<and> list_all2 (\<lambda>c d. variant_bytes E (str_lower (py_suffix (path_name src))) base c = Inr d)
                  (take (length datas) (map snd (augmentations b))) datas)"
    by blast
  have "augment_step E src dest st =
       after E st (variant_writes dest (py_stem (path_name src))
                     (str_lower (py_suffix (path_name src))) variant_tags datas
                   @ skip_events src x)"
    using b D(1)
    by (cases x) (simp_all add: augment_step_def skip_events_def print_after[of _ _ E] after_append)
  then show ?thesis using D(2,3,4) b by (intro exI[of _ datas]) simp
qed

lemma process_file_outcome:
  "fst (process_file E inp out c src st) = prep_error E inp out src"
  by (simp add: process_file_def prep_error_def mkdir_parents_def Let_def
      split: sum.splits option.splits)

lemma process_file_raises:
  "prep_error E inp out src = Some e \<Longrightarrow> process_file E inp out c src st = (Some e, st)"
  by (auto simp: process_file_def prep_error_def mkdir_parents_def Let_def
      split: sum.splits option.splits)

lemma process_file_after:
  assumes "relative_to src inp = Inr rel" and "mkdir_fault E (parent (joinpath out rel)) = None"
  shows "\<exists>datas.
     process_file E inp out c src st =
       (None, after E st (Mkdir (parent (joinpath out rel))
                # copy_events E c src (parent (joinpath out rel))
                @ variant_writes (parent (joinpath out rel)) (py_stem (path_name src))
                     (str_lower (py_suffix (path_name src))) variant_tags datas
                @ skip_events src (fst (augment_body E src (parent (joinpath out rel))
                     (after E st (Mkdir (parent (joinpath out rel))
                        # copy_events E c src (parent (joinpath out rel))))))))
     \<and> length datas \<le> 8
     \<and> (fst (augment_body E src (parent (joinpath out rel))
                     (after E st (Mkdir (parent (joinpath out rel))
                        # copy_events E c src (parent (joinpath out rel))))) = None
          \<longleftrightarrow> length datas = 8)
     \<and> (datas \<noteq> [] \<longrightarrow>
          (\<exists>im0 im base b. pil_open E src = Inr im0 \<and> pil_load E im0 = Inr im
             \<and> normalize_spec E default_background im = Inr base
             \<and> list_all2 (\<lambda>c d. variant_bytes E (str_lower (py_suffix (path_name src))) base c = Inr d)
                  (take (length datas) (map snd (augmentations b))) datas))"
proof -
  let ?d = "parent (joinpath out rel)"
  let ?st1 = "after E st [Mkdir ?d]"
  let ?st2 = "after E st (Mkdir ?d # copy_events E c src ?d)"
  have m: "mkdir_parents E ?d st = Inr ?st1"
    using assms(2) by (simp add: mkdir_parents_def after_def)
  have c: "copy_step E c src ?d ?st1 = ?st2"
    by (simp add: copy_step_after after_append)
  have pf: "process_file E inp out c src st = (None, augment_step E src ?d ?st2)"
    using assms(1) m c by (simp add: process_file_def Let_def)
  from augment_step_after[of E src ?d ?st2] show ?thesis
    unfolding pf by (auto simp: after_append)
qed

lemma process_files_append:
  "process_files E inp out c (pre @ post) st =
     (case process_files E inp out c pre st of
        (Some e, st') \<Rightarrow> (Some e, st')
      | (None, st') \<Rightarrow> process_files E inp out c post st')"
  by (induction pre arbitrary: st) (auto split: prod.splits option.splits)

lemma process_files_outcome:
  "fst (process_files E inp out c srcs st) = first_prep_error E inp out srcs"
proof (induction srcs arbitrary: st)
  case Nil
  show ?case by simp
next
  case (Cons src srcs)
  show ?case
    using process_file_outcome[of E inp out c src st] Cons.IH
    by (auto split: prod.splits option.splits)
qed

lemma count_writes_simps:
  "count_writes [] = 0"
  "count_writes (Mkdir p # evs) = count_writes evs"
  "count_writes (Print d # evs) = count_writes evs"
  "count_writes (Copy2 s t # evs) = count_writes evs"
  "count_writes (WriteBytes p b # evs) = Suc (count_writes evs)"
  "count_writes (xs @ ys) = count_writes xs + count_writes ys"
  by (simp_all add: count_writes_def)

lemma count_copies_simps:
  "count_copies [] = 0"
  "count_copies (Mkdir p # evs) = count_copies evs"
  "count_copies (Print d # evs) = count_copies evs"
  "count_copies (Copy2 s t # evs) = Suc (count_copies evs)"
  "count_copies (WriteBytes p b # evs) = count_copies evs"
  "count_copies (xs @ ys) = count_copies xs + count_copies ys"
  by (simp_all add: count_copies_def)

lemma count_writes_variant_writes:
  "count_writes (variant_writes dest stem ext tags datas) = min (length tags) (length datas)"
  by (simp add: count_writes_def variant_writes_def filter_id_conv split_beta)

lemma count_writes_copy_events: "count_writes (copy_events E c src dest) = 0"
  by (simp add: copy_events_def count_writes_simps split: option.splits)

lemma count_writes_skip_events: "count_writes (skip_events src x) = 0"
  by (simp add: skip_events_def count_writes_simps split: option.splits)

lemma process_file_events:
  "\<exists>evs. snd (process_file E inp out c src st) = after E st evs \<and> count_writes evs \<le> 8"
proof (cases "prep_error E inp out src")
  case (Some e)
  from process_file_raises[OF this] show ?thesis
    by (intro exI[of _ "[]"]) (simp add: after_Nil count_writes_simps)
next
  case None
  then obtain rel where r: "relative_to src inp = Inr rel" "mkdir_fault E (parent (joinpath out rel)) = None"
    by (auto simp: prep_error_def split: sum.splits)
  from process_file_after[OF r, of c st] obtain datas evs where
    pf: "process_file E inp out c src st = (None, after E st evs)"
    and evs: "evs = Mkdir (parent (joinpath out rel))
                # copy_events E c src (parent (joinpath out rel))
                @ variant_writes (parent (joinpath out rel)) (py_stem (path_name src))
                     (str_lower (py_suffix (path_name src))) variant_tags datas
                @ skip_events src (fst (augment_body E src (parent (joinpath out rel))
                     (after E st (Mkdir (parent (joinpath out rel))
                        # copy_events E c src (parent (joinpath out rel))))))"
    and len: "length datas \<le> 8"
    by blast
  have "count_writes evs \<le> 8"
    unfolding evs using len
    by (simp add: count_writes_simps count_writes_variant_writes count_writes_copy_events
        count_writes_skip_events)
  then show ?thesis using pf by (intro exI[of _ evs]) simp
qed

lemma process_files_events:
  "\<exists>evs. snd (process_files E inp out c srcs st) = after E st evs"
proof (induction srcs arbitrary: st)
  case Nil
  show ?case by (intro exI[of _ "[]"]) (simp add: after_Nil)
next
  case (Cons src srcs)
  obtain x st1 where p: "process_file E inp out c src st = (x, st1)" by force
  obtain e1 where e1: "st1 = after E st e1" using process_file_events[of E inp out c src st] p by auto
  show ?case
  proof (cases x)
    case None
    from Cons.IH[of st1] obtain e2 where "snd (process_files E inp out c srcs st1) = after E st1 e2" by blast
    then show ?thesis using p None e1 by (auto simp: after_append)
  next
    case (Some e)
    then show ?thesis using p e1 by auto
  qed
qed

lemma after_Cons: "after E st (ev # evs) = after E (after E st [ev]) evs"
  using after_append[of E st "[ev]" evs] by simp

lemma num_augmented_after:
  "num_augmented (after E st evs) = num_augmented st + count_writes evs"
proof (induction evs arbitrary: st)
  case Nil
  show ?case by (simp add: after_Nil count_writes_simps)
next
  case (Cons ev evs)
  have "num_augmented (after E st [ev]) = num_augmented st + count_writes [ev]"
    by (cases ev) (simp_all add: after_def count_writes_def)
  then show ?case
    using Cons.IH[of "after E st [ev]"] count_writes_simps(6)[of "[ev]" evs]
    by (simp add: after_Cons[of E st ev evs])
qed

lemma num_originals_after:
  "num_originals (after E st evs) = num_originals st + count_copies evs"
proof (induction evs arbitrary: st)
  case Nil
  show ?case by (simp add: after_Nil count_copies_simps)
next
  case (Cons ev evs)
  have "num_originals (after E st [ev]) = num_originals st + count_copies [ev]"
    by (cases ev) (simp_all add: after_def count_copies_def)
  then show ?case
    using Cons.IH[of "after E st [ev]"] count_copies_simps(6)[of "[ev]" evs]
    by (simp add: after_Cons[of E st ev evs])
qed

lemma files_after_keep: "files st p \<noteq> None \<Longrightarrow> files (after E st evs) p \<noteq> None"
proof (induction evs arbitrary: st)
  case Nil
  then show ?case by (simp add: after_Nil)
next
  case (Cons ev evs)
  have "files (after E st [ev]) p \<noteq> None"
    using Cons.prems by (cases ev) (simp_all add: after_def)
  from Cons.IH[OF this] show ?case by (simp add: after_Cons[of E st ev evs])
qed

lemma files_after_created:
  "ev \<in> set evs \<Longrightarrow> created ev = Some p \<Longrightarrow> files (after E st evs) p \<noteq> None"
proof (induction evs arbitrary: st)
  case Nil
  then show ?case by simp
next
  case (Cons a evs)
  show ?case
  proof (cases "ev = a")
    case True
    have "files (after E st [a]) p \<noteq> None"
      using Cons.prems(2) True by (cases a) (simp_all add: after_def)
    from files_after_keep[OF this] show ?thesis by (simp add: after_Cons[of E st a evs])
  next
    case False
    then have "ev \<in> set evs" using Cons.prems(1) by simp
    from Cons.IH[OF this Cons.prems(2)] show ?thesis by (simp add: after_Cons[of E st a evs])
  qed
qed

lemma dirs_after_keep: "p \<in> dirs st \<Longrightarrow> p \<in> dirs (after E st evs)"
proof (induction evs arbitrary: st)
  case Nil
  then show ?case by (simp add: after_Nil)
next
  case (Cons ev evs)
  have "p \<in> dirs (after E st [ev])"
    using Cons.prems by (cases ev) (simp_all add: after_def)
  from Cons.IH[OF this] show ?case by (simp add: after_Cons[of E st ev evs])
qed

lemma dirs_after_Mkdir: "prefix q p \<Longrightarrow> q \<in> dirs (after E st (Mkdir p # evs))"
proof -
  assume "prefix q p"
  then have "q \<in> dirs (after E st [Mkdir p])" by (simp add: after_def)
  from dirs_after_keep[OF this] show ?thesis by (simp add: after_Cons[of E st "Mkdir p" evs])
qed

subsection \<open>Runs in the concrete environment\<close>

lemmas run_defs =
  process_dataset_def discover_def true_image_def process_file_def copy_step_def augment_step_def
  augment_body_def relative_to_def joinpath_def parent_def path_name_def
  mkdir_parents_def shutil_copy2_def write_bytes_def print_def out_name_def
  Image_open_def Image_load_def Image_new_def Image_convert_def Image_getchannel_def Image_paste_def
  convert_rgb_def guarantee_rgb_for_jpeg_def augmentations_def eval_call_def save_image_def
  save_format_def format_table_def alloc_def heap0_def default_background_def
  py_suffix_def py_stem_def has_suffix_def after_dot_def str_lower_def lower_char_def
  recognize_formats_def

lemma demo_discover: "discover demo_env [''in''] = [[''in'', ''photos'', ''car.PNG'']]"
  by (simp add: run_defs demo_env_def)

lemma demo_run_trace:
  "trace (snd (process_dataset demo_env [''in''] [''out''] True state0)) =
   [Mkdir [''out'', ''photos''],
    Copy2 [''in'', ''photos'', ''car.PNG''] [''out'', ''photos'', ''car.PNG''],
    WriteBytes [''out'', ''photos'', ''car__flipHorizontal.png''] [255, 255, 255],
    WriteBytes [''out'', ''photos'', ''car__flipVertical.png''] [255, 255, 255],
    WriteBytes [''out'', ''photos'', ''car__rotate90degrees.png''] [255, 255, 255],
    WriteBytes [''out'', ''photos'', ''car__rotate270.png''] [255, 255, 255],
    WriteBytes [''out'', ''photos'', ''car__bright125.png''] [255, 255, 255],
    WriteBytes [''out'', ''photos'', ''car__contrast125.png''] [255, 255, 255],
    WriteBytes [''out'', ''photos'', ''car__sharp150.png''] [255, 255, 255],
    WriteBytes [''out'', ''photos'', ''car__blur.png''] [255, 255, 255],
    Print (Completed [''out'']), Print (DataCounts 1 8)]"
  by (simp add: run_defs demo_env_def demo_image_def state0_def Let_def)

lemma mkdir_fail_run:
  "process_dataset mkdir_fail_env [''in''] [''out''] True state0
   = (Raised (OSError ''permission denied''), state0)"
  by (simp add: run_defs mkdir_fail_env_def demo_env_def demo_image_def state0_def Let_def)

lemma write_fail_run_trace:
  "trace (snd (process_dataset write_fail_env [''in''] [''out''] True state0)) =
   [Mkdir [''out'', ''photos''],
    Copy2 [''in'', ''photos'', ''car.PNG''] [''out'', ''photos'', ''car.PNG''],
    WriteBytes [''out'', ''photos'', ''car__flipHorizontal.png''] [255, 255, 255],
    WriteBytes [''out'', ''photos'', ''car__flipVertical.png''] [255, 255, 255],
    WriteBytes [''out'', ''photos'', ''car__rotate90degrees.png''] [255, 255, 255],
    Print (Skipping [''in'', ''photos'', ''car.PNG''] (OSError ''disk full'')),
    Print (Completed [''out'']), Print (DataCounts 1 3)]"
  by (simp add: run_defs write_fail_env_def demo_env_def demo_image_def state0_def Let_def)

lemmas env_defs =
  demo_env_def demo_image_def state0_def mkdir_fail_env_def write_fail_env_def
  open_fail_env_def car_def

lemmas event_defs = after_def copy_events_def skip_events_def variant_writes_def variant_tags_def

lemma mkdir_fail_discover: "discover mkdir_fail_env [''in''] = [car]"
  by (simp add: run_defs env_defs)

lemma process_dataset_raises:
  assumes "discover E inp = pre @ src # rest"
    and "process_files E inp out c pre (w\<lparr>num_originals := 0, num_augmented := 0\<rparr>) = (None, st1)"
    and "prep_error E inp out src = Some e"
  shows "process_dataset E inp out c w = (Raised e, st1)"
proof -
  have "process_files E inp out c (src # rest) st1 = (Some e, st1)"
    using process_file_raises[OF assms(3), of c st1] by simp
  then have "process_files E inp out c (pre @ src # rest) (w\<lparr>num_originals := 0, num_augmented := 0\<rparr>)
      = (Some e, st1)"
    using assms(2) by (simp add: process_files_append)
  then show ?thesis using assms(1) by (simp add: process_dataset_def Let_def)
qed


lemma created_variant_writes:
  "ev \<in> set (variant_writes d stem ext tags datas) \<Longrightarrow> created ev = Some p \<Longrightarrow>
   \<exists>tag\<in>set tags. p = joinpath d [out_name stem tag ext]"
  by (auto simp: variant_writes_def dest: set_zip_leftD)



lemma path_name_joinpath: "path_name (joinpath d [n]) = n"
  by (simp add: path_name_def joinpath_def)


lemma parent_joinpath: "rel \<noteq> [] \<Longrightarrow> parent (joinpath out rel) = joinpath out (parent rel)"
  by (simp add: parent_def joinpath_def butlast_append)

lemma process_files_after:
  "\<exists>evs. process_files E inp out c srcs st = (first_prep_error E inp out srcs, after E st evs)"
  using process_files_events[of E inp out c srcs st] process_files_outcome[of E inp out c srcs st]
  by (auto simp: prod_eq_iff)

lemma write_fail_discover: "discover write_fail_env [''in''] = [car]"
  by (simp add: run_defs env_defs)

lemma write_fail_run_count:
  "num_augmented (snd (process_dataset write_fail_env [''in''] [''out''] True state0)) = 3"
  by (simp add: run_defs env_defs Let_def)

lemma py_suffix_out_name:
  "ext \<in> recognize_formats \<Longrightarrow> py_suffix (out_name stem tag ext) = ext"
  by (auto simp: recognize_formats_def py_suffix_def has_suffix_def after_dot_def out_name_def)

lemma lower_char_idem: "lower_char (lower_char c) = lower_char c"
  by (simp add: lower_char_def)

lemma str_lower_idem: "str_lower (str_lower s) = str_lower s"
  by (simp add: str_lower_def lower_char_idem)

lemma save_format_lower: "save_format (str_lower ext) = save_format ext"
  by (simp add: save_format_def str_lower_idem)

lemma drain_all_or_first_error:
  "\<forall>c\<in>set (map snd calls). call_arg c = b \<Longrightarrow> b < next_ref h \<Longrightarrow>
   drain E calls h = all_or_first_error (map (\<lambda>(tag, c). (tag, call_result E c (objs h b))) calls)"
proof (induction calls arbitrary: h)
  case Nil
  show ?case by simp
next
  case (Cons a calls)
  obtain tag c where a: "a = (tag, c)" by (cases a)
  have cb: "call_arg c = b" using Cons.prems(1) a by simp
  show ?case
  proof (cases "eval_call E c h")
    case (Inl e)
    then have "call_result E c (objs h b) = Inl e"
      using cb by (simp add: eval_call_def split: sum.splits)
    then show ?thesis using Inl a by simp
  next
    case (Inr p)
    obtain r h1 where p: "p = (r, h1)" by (cases p)
    note f = eval_call_frame[OF Inr[unfolded p]]
    have h1: "b < next_ref h1" "objs h1 b = objs h b" using f Cons.prems(2) by auto
    have "\<forall>c\<in>set (map snd calls). call_arg c = b" using Cons.prems(1) by simp
    from Cons.IH[OF this h1(1)] h1(2)
    have "drain E calls h1 =
        all_or_first_error (map (\<lambda>(tag, c). (tag, call_result E c (objs h b))) calls)"
      by simp
    moreover have "call_result E c (objs h b) = Inr (objs h1 r)" using f cb by simp
    ultimately show ?thesis using Inr p a by simp
  qed
qed

lemma true_image_ext: "true_image E src \<Longrightarrow> str_lower (py_suffix (path_name src)) \<in> recognize_formats"
  by (simp add: true_image_def)

lemma variant_bytes_parts:
  "variant_bytes E ext base c = Inr d \<Longrightarrow>
   \<exists>t v. call_result E c base = Inr t \<and> jpeg_safe E t ext = Inr v \<and> save_image E v ext = Inr d
     \<and> (ext = ''.jpg'' \<or> ext = ''.jpeg'' \<longrightarrow> im_mode v = ''RGB'' \<or> im_mode v = ''L'')"
  using jpeg_safe_mode[of E _ ext]
  by (auto simp: variant_bytes_def split: sum.splits)

lemma normalize_spec_alpha:
  "im_mode im = ''RGBA'' \<or> im_mode im = ''LA'' \<Longrightarrow>
   normalize_spec E background im = composite_over E background im"
  by (auto simp: normalize_spec_def)

lemma guarantee_cases:
  assumes "a < next_ref h"
  shows "case guarantee_rgb_for_jpeg E a ext h of
      Inl e \<Rightarrow> jpeg_safe E (objs h a) ext = Inl e
    | Inr (r, h') \<Rightarrow>
        jpeg_safe E (objs h a) ext = Inr (objs h' r)
        \<and> (\<forall>x. x < next_ref h \<longrightarrow> objs h' x = objs h x)
        \<and> (if (ext = ''.jpg'' \<or> ext = ''.jpeg'')
               \<and> im_mode (objs h a) \<noteq> ''RGB'' \<and> im_mode (objs h a) \<noteq> ''L''
            then r = next_ref h \<and> im_mode (objs h' r) = ''RGB''
            else r = a \<and> h' = h)"
  using assms
  by (auto simp: guarantee_rgb_for_jpeg_def jpeg_safe_def converted_def Image_convert_def alloc_def
      split: sum.splits)

subsection \<open>Two runs, step by step\<close>

lemma alike_print: "alike o1 o2 st1 st2 \<Longrightarrow> alike o1 o2 (print d1 st1) (print d2 st2)"
  by (simp add: alike_def same_tree_def print_def)

lemma alike_file:
  "alike o1 o2 st1 st2 \<Longrightarrow>
   alike o1 o2 (st1\<lparr>files := (files st1)(joinpath o1 q \<mapsto> b), trace := t1\<rparr>)
               (st2\<lparr>files := (files st2)(joinpath o2 q \<mapsto> b), trace := t2\<rparr>)"
  by (simp add: alike_def same_tree_def joinpath_def)

lemma alike_dirs:
  "alike o1 o2 st1 st2 \<Longrightarrow>
   alike o1 o2 (st1\<lparr>dirs := dirs st1 \<union> set (prefixes (joinpath o1 q)), trace := t1\<rparr>)
               (st2\<lparr>dirs := dirs st2 \<union> set (prefixes (joinpath o2 q)), trace := t2\<rparr>)"
  by (simp add: alike_def same_tree_def joinpath_def)

lemma alike_augmented:
  "alike o1 o2 st1 st2 \<Longrightarrow>
   alike o1 o2 (st1\<lparr>num_augmented := num_augmented st1 + 1\<rparr>)
               (st2\<lparr>num_augmented := num_augmented st2 + 1\<rparr>)"
  by (simp add: alike_def same_tree_def)

lemma alike_originals:
  "alike o1 o2 st1 st2 \<Longrightarrow>
   alike o1 o2 (st1\<lparr>num_originals := num_originals st1 + 1\<rparr>)
               (st2\<lparr>num_originals := num_originals st2 + 1\<rparr>)"
  by (simp add: alike_def same_tree_def)

lemma write_bytes_alike:
  assumes "root_independent E o1 o2" and "alike o1 o2 st1 st2"
  shows "rel_sum (=) (alike o1 o2)
           (write_bytes E (joinpath o1 q) b st1) (write_bytes E (joinpath o2 q) b st2)"
proof -
  have "write_fault E (joinpath o1 q) b = write_fault E (joinpath o2 q) b"
    using assms(1) by (simp add: root_independent_def)
  then show ?thesis
    using alike_file[OF assms(2)] by (simp add: write_bytes_def split: option.splits)
qed

lemma shutil_copy2_alike:
  assumes "root_independent E o1 o2" and "alike o1 o2 st1 st2"
  shows "rel_sum (=) (alike o1 o2)
           (shutil_copy2 E src (joinpath o1 q) st1) (shutil_copy2 E src (joinpath o2 q) st2)"
proof -
  have "copy2_fault E src (joinpath o1 q) = copy2_fault E src (joinpath o2 q)"
    using assms(1) by (simp add: root_independent_def)
  then show ?thesis
    using alike_file[OF assms(2)] by (simp add: shutil_copy2_def split: option.splits)
qed

lemma mkdir_parents_alike:
  assumes "root_independent E o1 o2" and "alike o1 o2 st1 st2"
  shows "rel_sum (=) (alike o1 o2)
           (mkdir_parents E (joinpath o1 q) st1) (mkdir_parents E (joinpath o2 q) st2)"
proof -
  have "mkdir_fault E (joinpath o1 q) = mkdir_fault E (joinpath o2 q)"
    using assms(1) by (simp add: root_independent_def)
  then show ?thesis
    using alike_dirs[OF assms(2)] by (simp add: mkdir_parents_def split: option.splits)
qed

lemma joinpath_assoc: "joinpath (joinpath a b) c = joinpath a (joinpath b c)"
  by (simp add: joinpath_def)

lemma write_variants_alike:
  assumes "root_independent E o1 o2" and "alike o1 o2 st1 st2"
  shows "rel_prod (=) (alike o1 o2)
           (write_variants E (joinpath o1 q) stem ext calls h st1)
           (write_variants E (joinpath o2 q) stem ext calls h st2)"
  using assms(2)
proof (induction calls arbitrary: h st1 st2)
  case Nil
  then show ?case by simp
next
  case (Cons a calls)
  obtain tag c where a: "a = (tag, c)" by (cases a)
  show ?case
  proof (cases "eval_call E c h")
    case (Inl e)
    then show ?thesis using Cons.prems a by simp
  next
    case (Inr p1)
    obtain aug h1 where p1: "p1 = (aug, h1)" by (cases p1)
    show ?thesis
    proof (cases "guarantee_rgb_for_jpeg E aug ext h1")
      case (Inl e)
      then show ?thesis using Cons.prems a Inr p1 by simp
    next
      case g: (Inr p2)
      obtain aug' h2 where p2: "p2 = (aug', h2)" by (cases p2)
      show ?thesis
      proof (cases "save_image E (objs h2 aug') ext")
        case (Inl e)
        then show ?thesis using Cons.prems a Inr p1 g p2 by simp
      next
        case s: (Inr d)
        let ?n = "[out_name stem tag ext]"
        note w = write_bytes_alike[OF assms(1) Cons.prems, of "joinpath q ?n" d,
            folded joinpath_assoc]
        show ?thesis
        proof (cases "write_bytes E (joinpath (joinpath o1 q) ?n) d st1")
          case w1: (Inl e1)
          then obtain e2 where w2: "write_bytes E (joinpath (joinpath o2 q) ?n) d st2 = Inl e2"
            and "e1 = e2"
            using w by (cases "write_bytes E (joinpath (joinpath o2 q) ?n) d st2") simp_all
          then show ?thesis using Cons.prems a Inr p1 g p2 s w1 by simp
        next
          case w1: (Inr s1)
          then obtain s2 where w2: "write_bytes E (joinpath (joinpath o2 q) ?n) d st2 = Inr s2"
            and al: "alike o1 o2 s1 s2"
            using w by (cases "write_bytes E (joinpath (joinpath o2 q) ?n) d st2") simp_all
          from Cons.IH[OF alike_augmented[OF al], of h2]
          show ?thesis using a Inr p1 g p2 s w1 w2 by simp
        qed
      qed
    qed
  qed
qed

lemma augment_body_alike:
  assumes "root_independent E o1 o2" and "alike o1 o2 st1 st2"
  shows "rel_prod (=) (alike o1 o2)
           (augment_body E src (joinpath o1 q) st1) (augment_body E src (joinpath o2 q) st2)"
  using assms(2) write_variants_alike[OF assms]
  by (simp add: augment_body_def Let_def split: sum.splits prod.splits)

lemma augment_step_alike:
  assumes "root_independent E o1 o2" and "alike o1 o2 st1 st2"
  shows "alike o1 o2 (augment_step E src (joinpath o1 q) st1)
                     (augment_step E src (joinpath o2 q) st2)"
proof -
  obtain x1 s1 where b1: "augment_body E src (joinpath o1 q) st1 = (x1, s1)" by force
  obtain x2 s2 where b2: "augment_body E src (joinpath o2 q) st2 = (x2, s2)" by force
  from augment_body_alike[OF assms, of src q] b1 b2 have "x1 = x2" "alike o1 o2 s1 s2"
    by simp_all
  then show ?thesis
    using b1 b2 alike_print[of o1 o2 s1 s2]
    by (simp add: augment_step_def split: option.splits)
qed

lemma copy_step_alike:
  assumes "root_independent E o1 o2" and "alike o1 o2 st1 st2"
  shows "alike o1 o2 (copy_step E c src (joinpath o1 q) st1)
                     (copy_step E c src (joinpath o2 q) st2)"
proof (cases c)
  case False
  then show ?thesis using assms(2) by (simp add: copy_step_def)
next
  case True
  let ?n = "[path_name src]"
  note w = shutil_copy2_alike[OF assms, of src "joinpath q ?n", folded joinpath_assoc]
  show ?thesis
  proof (cases "shutil_copy2 E src (joinpath (joinpath o1 q) ?n) st1")
    case w1: (Inl e1)
    then obtain e2 where "shutil_copy2 E src (joinpath (joinpath o2 q) ?n) st2 = Inl e2"
      using w by (cases "shutil_copy2 E src (joinpath (joinpath o2 q) ?n) st2") simp_all
    then show ?thesis using True w1 alike_print[OF assms(2)] by (simp add: copy_step_def)
  next
    case w1: (Inr s1)
    then obtain s2 where "shutil_copy2 E src (joinpath (joinpath o2 q) ?n) st2 = Inr s2"
      and al: "alike o1 o2 s1 s2"
      using w by (cases "shutil_copy2 E src (joinpath (joinpath o2 q) ?n) st2") simp_all
    then show ?thesis using True w1 alike_originals[OF al] by (simp add: copy_step_def)
  qed
qed

lemma process_file_alike:
  assumes "root_independent E o1 o2" and "alike o1 o2 st1 st2" and "src \<noteq> inp"
  shows "rel_prod (=) (alike o1 o2)
           (process_file E inp o1 c src st1) (process_file E inp o2 c src st2)"
proof (cases "relative_to src inp")
  case (Inl e)
  then show ?thesis using assms(2) by (simp add: process_file_def)
next
  case (Inr rel)
  then have "take (length inp) src = inp" "rel = drop (length inp) src"
    by (auto simp: relative_to_def split: if_splits)
  then have "rel \<noteq> []"
    using assms(3) append_take_drop_id[of "length inp" src] by auto
  then have d: "parent (joinpath o1 rel) = joinpath o1 (parent rel)"
     "parent (joinpath o2 rel) = joinpath o2 (parent rel)"
    by (simp_all add: parent_joinpath)
  note m = mkdir_parents_alike[OF assms(1,2), of "parent rel"]
  show ?thesis
  proof (cases "mkdir_parents E (joinpath o1 (parent rel)) st1")
    case m1: (Inl e1)
    then obtain e2 where "mkdir_parents E (joinpath o2 (parent rel)) st2 = Inl e2" "e1 = e2"
      using m by (cases "mkdir_parents E (joinpath o2 (parent rel)) st2") simp_all
    then show ?thesis using Inr d m1 assms(2) by (simp add: process_file_def Let_def)
  next
    case m1: (Inr s1)
    then obtain s2 where m2: "mkdir_parents E (joinpath o2 (parent rel)) st2 = Inr s2"
      and al: "alike o1 o2 s1 s2"
      using m by (cases "mkdir_parents E (joinpath o2 (parent rel)) st2") simp_all
    from augment_step_alike[OF assms(1) copy_step_alike[OF assms(1) al]]
    show ?thesis using Inr d m1 m2 by (simp add: process_file_def Let_def)
  qed
qed

lemma process_files_alike:
  assumes "root_independent E o1 o2" and "alike o1 o2 st1 st2" and "inp \<notin> set srcs"
  shows "rel_prod (=) (alike o1 o2)
           (process_files E inp o1 c srcs st1) (process_files E inp o2 c srcs st2)"
  using assms(2,3)
proof (induction srcs arbitrary: st1 st2)
  case Nil
  then show ?case by simp
next
  case (Cons src srcs)
  obtain x1 s1 where p1: "process_file E inp o1 c src st1 = (x1, s1)" by force
  obtain x2 s2 where p2: "process_file E inp o2 c src st2 = (x2, s2)" by force
  have "src \<noteq> inp" using Cons.prems(2) by auto
  from process_file_alike[OF assms(1) Cons.prems(1) this, of c] p1 p2
  have x: "x1 = x2" and al: "alike o1 o2 s1 s2" by simp_all
  show ?case
  proof (cases x1)
    case None
    have "inp \<notin> set srcs" using Cons.prems(2) by simp
    from Cons.IH[OF al this] show ?thesis using p1 p2 x None by simp
  next
    case (Some e)
    then show ?thesis using p1 p2 x al by simp
  qed
qed

lemma demo_root_independent: "root_independent demo_env o1 o2"
  by (simp add: root_independent_def demo_env_def)

lemma demo_root_not_discovered: "[''in''] \<notin> set (discover demo_env [''in''])"
  by (simp add: demo_discover)

lemma demo_run_file:
  "files (snd (process_dataset demo_env [''in''] [''out1''] True state0))
     [''out1'', ''photos'', ''car__blur.png''] = Some [255, 255, 255]"
  by (simp add: run_defs demo_env_def demo_image_def state0_def Let_def)

lemma list_all2_right_ex:
  "list_all2 P xs ys \<Longrightarrow> y \<in> set ys \<Longrightarrow> \<exists>x\<in>set xs. P x y"
  by (induction rule: list_all2_induct) auto

lemma variant_writes_data:
  "WriteBytes p b \<in> set (variant_writes d stem ext tags datas) \<Longrightarrow> b \<in> set datas"
  by (auto simp: variant_writes_def dest: set_zip_rightD)

lemma save_image_pil_save:
  "save_image E v ext = pil_save E v (save_format ext)
     (if save_format ext = ''JPEG'' then Some 95 else None) (save_format ext = ''JPEG'')"
  by (simp add: save_image_def Let_def)

lemma format_of_recognized:
  assumes "l \<in> recognize_formats"
  shows "map_of format_table l = Some (save_format l)
     \<and> (save_format l = ''JPEG'' \<longleftrightarrow> l = ''.jpg'' \<or> l = ''.jpeg'')
     \<and> (save_format l = ''PNG'' \<longleftrightarrow> l = ''.png'')
     \<and> (save_format l = ''BMP'' \<longleftrightarrow> l = ''.bmp'')
     \<and> (save_format l = ''TIFF'' \<longleftrightarrow> l = ''.tif'' \<or> l = ''.tiff'')
     \<and> (save_format l = ''WEBP'' \<longleftrightarrow> l = ''.webp'')"
proof -
  have low: "str_lower l = l"
    using assms by (auto simp: recognize_formats_def str_lower_def lower_char_def)
  show ?thesis
    using assms unfolding save_format_def low
    by (auto simp: recognize_formats_def format_table_def)
qed

lemma boat_accepted: "true_image tagging_env boat"
  by (simp add: true_image_def boat_def path_name_def py_suffix_def has_suffix_def after_dot_def
      str_lower_def lower_char_def recognize_formats_def tagging_env_def demo_env_def)

lemma boat_trace:
  "trace (snd (process_file tagging_env [''in''] [''out''] False boat state0)) =
   Mkdir [''out'']
   # variant_writes [''out''] ''boat'' ''.jpg'' variant_tags (replicate 8 [4, 95, 255, 255, 255])"
  by (simp add: run_defs env_defs event_defs tagging_env_def boat_def Let_def numeral_eq_Suc)


subsection \<open>The augmentation generator\<close>

text \<open>
  Claim C1. Run to its end on a base image that is an object of the store, the
  generator yields eight pairs, in this order and under these names: the
  mirror (left to right), the flip (top to bottom), the rotations by 90 and by
  270 degrees counter-clockwise with the canvas expanded, brightness, contrast
  and sharpness each with factor 1.5 (not 1.25), and the blur filter. Each
  image is the result of its library call on the base image as it was before
  the generator ran: no call sees the result of an earlier one, and every call
  names the base reference as its argument. If a call raises, the generator
  ends with the first such exception.
\<close>

theorem augmentations_fixed:
  assumes "b < next_ref h"
  shows "drain E (augmentations b) h =
           all_or_first_error
             [(''flipHorizontal'', pil_mirror E (objs h b)),
              (''flipVertical'', pil_flip E (objs h b)),
              (''rotate90degrees'', pil_rotate E (objs h b) 90 True),
              (''rotate270'', pil_rotate E (objs h b) 270 True),
              (''bright125'', pil_brightness E (objs h b) (3 / 2)),
              (''contrast125'', pil_contrast E (objs h b) (3 / 2)),
              (''sharp150'', pil_sharpness E (objs h b) (3 / 2)),
              (''blur'', pil_blur E (objs h b))]
         \<and> length (augmentations b) = 8
         \<and> (\<forall>c\<in>set (map snd (augmentations b)). call_arg c = b)
         \<and> (3 / 2 :: real) \<noteq> 125 / 100"
proof -
  have args: "\<forall>c\<in>set (map snd (augmentations b)). call_arg c = b"
    by (simp add: augmentations_def)
  from drain_all_or_first_error[OF args assms, of E] args show ?thesis
    by (simp add: augmentations_def)
qed

theorem augmentations_fixed_witness:
  "(0::nat) < next_ref demo_heap
   \<and> drain demo_env (augmentations 0) demo_heap =
       Inr [(''flipHorizontal'', demo_image), (''flipVertical'', demo_image),
            (''rotate90degrees'', demo_image), (''rotate270'', demo_image),
            (''bright125'', demo_image), (''contrast125'', demo_image),
            (''sharp150'', demo_image), (''blur'', demo_image)]"
proof -
  have h: "(0::nat) < next_ref demo_heap" by (simp add: demo_heap_def alloc_def)
  have o: "objs demo_heap 0 = demo_image" by (simp add: demo_heap_def alloc_def heap0_def)
  from augmentations_fixed[OF h, of demo_env] h show ?thesis
    unfolding o by (simp add: demo_env_def demo_image_def)
qed

subsection \<open>Colour normalisation\<close>

text \<open>
  Claim C4. \<^verbatim>\<open>convert_rgb\<close> computes the normalisation on the object it is
  given: it raises exactly when a library call of the normalisation raises, and
  otherwise returns (a reference to) an image that is the normalised input and
  has mode RGB. Every object that existed before the call, the input among
  them, is as it was. An input of mode RGB is returned itself, in an unchanged
  store. By \<open>normalize_spec\<close>, an RGBA or LA input is laid over the background
  (white at the only call site) with its alpha band as the mask, and any other
  input is converted to RGB.
\<close>

theorem convert_rgb_refines:
  assumes "img < next_ref h"
  shows "case convert_rgb E img background h of
           Inl e \<Rightarrow> normalize_spec E background (objs h img) = Inl e
         | Inr (r, h') \<Rightarrow>
             normalize_spec E background (objs h img) = Inr (objs h' r)
             \<and> im_mode (objs h' r) = ''RGB''
             \<and> (\<forall>x. x < next_ref h \<longrightarrow> objs h' x = objs h x)
             \<and> next_ref h \<le> next_ref h' \<and> r < next_ref h'
             \<and> (im_mode (objs h img) = ''RGB'' \<longrightarrow> r = img \<and> h' = h)"
  using convert_rgb_frame [OF assms, of E background]
  by (simp split: sum.splits prod.splits)

theorem convert_rgb_refines_witness:
  "(0::nat) < next_ref demo_heap \<and>
   (case convert_rgb demo_env 0 default_background demo_heap of
      Inl e \<Rightarrow> False
    | Inr (r, h') \<Rightarrow>
        objs h' r = \<lparr>im_mode = ''RGB'', im_size = (1, 1), im_data = [255, 255, 255]\<rparr>
        \<and> objs h' 0 = demo_image \<and> r \<noteq> 0)"
  using convert_rgb_refines [of 0 demo_heap demo_env default_background]
  by (simp add: convert_rgb_def demo_heap_def demo_env_def demo_image_def heap0_def alloc_def
      default_background_def Image_new_def Image_convert_def Image_getchannel_def
      Image_paste_def Let_def)

subsection \<open>Failures outside the two handlers\<close>

text \<open>
  Claim C9. When \<^verbatim>\<open>relative_to\<close> or \<^verbatim>\<open>mkdir\<close> raises \<open>e\<close> for a source,
  the round ends with \<open>e\<close> and an unchanged state, the loop ends with \<open>e\<close>
  without looking at the rest, and \<^verbatim>\<open>process_dataset\<close> raises \<open>e\<close> from the
  state the earlier files left: no later file is processed and no report is
  printed. When both calls succeed, the first effect of the round is the
  \<^verbatim>\<open>mkdir\<close> of the destination directory and the directory exists at the end
  of the round, whether or not originals are copied; with copying off and an
  image that cannot be opened, the directory and the diagnostic are the only
  effects.
\<close>

theorem prep_failure_aborts_run:
  "(prep_error E inp out src = Some e \<longrightarrow>
      process_file E inp out c src st = (Some e, st)
      \<and> process_files E inp out c (src # rest) st = (Some e, st)
      \<and> (\<forall>pre w st1. discover E inp = pre @ src # rest
            \<and> process_files E inp out c pre (w\<lparr>num_originals := 0, num_augmented := 0\<rparr>) = (None, st1)
            \<longrightarrow> process_dataset E inp out c w = (Raised e, st1)))
   \<and> (\<forall>rel. relative_to src inp = Inr rel \<and> mkdir_fault E (parent (joinpath out rel)) = None \<longrightarrow>
        (\<exists>evs. process_file E inp out c src st
                 = (None, after E st (Mkdir (parent (joinpath out rel)) # evs)))
        \<and> parent (joinpath out rel) \<in> dirs (snd (process_file E inp out c src st))
        \<and> (\<forall>e'. \<not> c \<and> pil_open E src = Inl e' \<longrightarrow>
              snd (process_file E inp out c src st)
                = after E st [Mkdir (parent (joinpath out rel)), Print (Skipping src e')]))"
proof (intro conjI impI allI)
  assume p: "prep_error E inp out src = Some e"
  show "process_file E inp out c src st = (Some e, st)" by (rule process_file_raises[OF p])
  then show "process_files E inp out c (src # rest) st = (Some e, st)" by simp
next
  fix pre w st1
  assume p: "prep_error E inp out src = Some e"
    and "discover E inp = pre @ src # rest
            \<and> process_files E inp out c pre (w\<lparr>num_originals := 0, num_augmented := 0\<rparr>) = (None, st1)"
  then show "process_dataset E inp out c w = (Raised e, st1)"
    using process_dataset_raises by blast
next
  fix rel
  assume a: "relative_to src inp = Inr rel \<and> mkdir_fault E (parent (joinpath out rel)) = None"
  from process_file_after[of src inp rel E out c st] a
  obtain evs where pf: "process_file E inp out c src st
                 = (None, after E st (Mkdir (parent (joinpath out rel)) # evs))"
    by auto
  then show "\<exists>evs. process_file E inp out c src st
                 = (None, after E st (Mkdir (parent (joinpath out rel)) # evs))" by blast
  show "parent (joinpath out rel) \<in> dirs (snd (process_file E inp out c src st))"
    unfolding pf by (simp add: dirs_after_Mkdir)
next
  fix rel e'
  assume a: "relative_to src inp = Inr rel \<and> mkdir_fault E (parent (joinpath out rel)) = None"
    and b: "\<not> c \<and> pil_open E src = Inl e'"
  have "mkdir_parents E (parent (joinpath out rel)) st = Inr (after E st [Mkdir (parent (joinpath out rel))])"
    using a by (simp add: mkdir_parents_def after_def)
  then show "snd (process_file E inp out c src st)
                = after E st [Mkdir (parent (joinpath out rel)), Print (Skipping src e')]"
    using a b
    by (simp add: process_file_def Let_def copy_step_def augment_step_def augment_body_def
        Image_open_def print_after[of _ _ E] after_append)
qed

theorem prep_failure_aborts_run_witness:
  "prep_error mkdir_fail_env [''in''] [''out''] car = Some (OSError ''permission denied'')
   \<and> discover mkdir_fail_env [''in''] = [] @ car # []
   \<and> process_files mkdir_fail_env [''in''] [''out''] True []
        (state0\<lparr>num_originals := 0, num_augmented := 0\<rparr>) = (None, state0)
   \<and> process_dataset mkdir_fail_env [''in''] [''out''] True state0
        = (Raised (OSError ''permission denied''), state0)
   \<and> relative_to car [''in''] = Inr [''photos'', ''car.PNG'']
   \<and> mkdir_fault open_fail_env (parent (joinpath [''out''] [''photos'', ''car.PNG''])) = None
   \<and> \<not> False \<and> pil_open open_fail_env car = Inl (ImageError ''cannot identify image file'')
   \<and> parent (joinpath [''out''] [''photos'', ''car.PNG''])
        \<in> dirs (snd (process_file open_fail_env [''in''] [''out''] False car state0))
   \<and> snd (process_file open_fail_env [''in''] [''out''] False car state0)
        = after open_fail_env state0
            [Mkdir (parent (joinpath [''out''] [''photos'', ''car.PNG''])),
             Print (Skipping car (ImageError ''cannot identify image file''))]"
proof -
  have h1: "prep_error mkdir_fail_env [''in''] [''out''] car = Some (OSError ''permission denied'')"
    by (simp add: prep_error_def relative_to_def env_defs)
  have h2: "discover mkdir_fail_env [''in''] = [] @ car # []"
    by (simp add: mkdir_fail_discover)
  have h3: "process_files mkdir_fail_env [''in''] [''out''] True []
        (state0\<lparr>num_originals := 0, num_augmented := 0\<rparr>) = (None, state0)"
    by (simp add: state0_def)
  have h4: "relative_to car [''in''] = Inr [''photos'', ''car.PNG'']"
    by (simp add: relative_to_def car_def)
  have h5: "mkdir_fault open_fail_env (parent (joinpath [''out''] [''photos'', ''car.PNG''])) = None"
    by (simp add: env_defs)
  have h6: "pil_open open_fail_env car = Inl (ImageError ''cannot identify image file'')"
    by (simp add: env_defs)
  from prep_failure_aborts_run[of mkdir_fail_env "[''in'']" "[''out'']" car
      "OSError ''permission denied''" True state0 "[]"] h1 h2 h3
  have a: "process_dataset mkdir_fail_env [''in''] [''out''] True state0
        = (Raised (OSError ''permission denied''), state0)"
    by blast
  from prep_failure_aborts_run[of open_fail_env "[''in'']" "[''out'']" car
      "OSError ''permission denied''" False state0 "[]"] h4 h5 h6
  have b: "parent (joinpath [''out''] [''photos'', ''car.PNG''])
        \<in> dirs (snd (process_file open_fail_env [''in''] [''out''] False car state0))
      \<and> snd (process_file open_fail_env [''in''] [''out''] False car state0)
        = after open_fail_env state0
            [Mkdir (parent (joinpath [''out''] [''photos'', ''car.PNG''])),
             Print (Skipping car (ImageError ''cannot identify image file''))]"
    by blast
  from a b h1 h2 h3 h4 h5 h6 show ?thesis by blast
qed

subsection \<open>The status of a run\<close>

text \<open>
  Claim C6. The claim holds of the specification's intent and fails on the
  code: the copy and the augmentation of a file are each inside a \<^verbatim>\<open>try\<close>,
  the \<^verbatim>\<open>mkdir\<close> of its destination directory is not. In the tree below one
  image is discovered, \<^verbatim>\<open>mkdir\<close> raises for its directory, and the run
  neither returns 0 nor 1: the exception leaves \<^verbatim>\<open>process_dataset\<close>, with
  nothing written and no report printed.
\<close>

theorem run_aborts_when_mkdir_fails:
  "discover mkdir_fail_env [''in''] = [car]
   \<and> process_dataset mkdir_fail_env [''in''] [''out''] True state0
       = (Raised (OSError ''permission denied''), state0)
   \<and> Raised (OSError ''permission denied'') \<noteq> Returned 0
   \<and> Raised (OSError ''permission denied'') \<noteq> Returned 1"
  by (simp add: mkdir_fail_discover mkdir_fail_run)

subsection \<open>The mirrored tree\<close>




subsection \<open>The counter of augmented files\<close>

text \<open>
  Claim C10. In one round \<open>num_augmented\<close> grows by exactly the number of
  \<^verbatim>\<open>write_bytes\<close> events of the round, at most eight, and fewer than eight
  when the round recorded a \<open>Skipping\<close> diagnostic; every file written is
  there at the end of the round, whether or not the round failed later. Over a
  run that discovers an image, the counters are the numbers of
  \<^verbatim>\<open>write_bytes\<close> and \<^verbatim>\<open>copy2\<close> events of the run, every file written is
  there at the end, and a run that returns ends by printing these two numbers.
\<close>

theorem augmented_count:
  "(\<exists>evs. process_file E inp out c src st = (prep_error E inp out src, after E st evs)
        \<and> num_augmented (after E st evs) = num_augmented st + count_writes evs
        \<and> count_writes evs \<le> 8
        \<and> (\<forall>e. Print (Skipping src e) \<in> set evs \<longrightarrow> count_writes evs < 8)
        \<and> (\<forall>p b. WriteBytes p b \<in> set evs \<longrightarrow> files (after E st evs) p \<noteq> None))
   \<and> (discover E inp \<noteq> [] \<longrightarrow>
        (\<exists>evs st1. st1 = after E (w\<lparr>num_originals := 0, num_augmented := 0\<rparr>) evs
           \<and> num_augmented st1 = count_writes evs \<and> num_originals st1 = count_copies evs
           \<and> (\<forall>p b. WriteBytes p b \<in> set evs \<longrightarrow> files st1 p \<noteq> None)
           \<and> process_dataset E inp out c w =
               (case first_prep_error E inp out (discover E inp) of
                  Some e \<Rightarrow> (Raised e, st1)
                | None \<Rightarrow>
                    (Returned 0,
                     after E st1 [Print (Completed out),
                                  Print (DataCounts (count_copies evs) (count_writes evs))]))))"
proof (intro conjI impI)
  show "\<exists>evs. process_file E inp out c src st = (prep_error E inp out src, after E st evs)
        \<and> num_augmented (after E st evs) = num_augmented st + count_writes evs
        \<and> count_writes evs \<le> 8
        \<and> (\<forall>e. Print (Skipping src e) \<in> set evs \<longrightarrow> count_writes evs < 8)
        \<and> (\<forall>p b. WriteBytes p b \<in> set evs \<longrightarrow> files (after E st evs) p \<noteq> None)"
  proof (cases "prep_error E inp out src")
    case (Some e)
    from process_file_raises[OF this, of c st] Some show ?thesis
      by (intro exI[of _ "[]"]) (simp add: after_Nil count_writes_simps)
  next
    case None
    then obtain rel where r: "relative_to src inp = Inr rel"
        "mkdir_fault E (parent (joinpath out rel)) = None"
      by (auto simp: prep_error_def split: sum.splits)
    let ?d = "parent (joinpath out rel)"
    define x where "x = fst (augment_body E src ?d (after E st (Mkdir ?d # copy_events E c src ?d)))"
    from process_file_after[OF r, of c st, folded x_def] obtain datas where
      pf: "process_file E inp out c src st =
         (None, after E st (Mkdir ?d # copy_events E c src ?d
                @ variant_writes ?d (py_stem (path_name src))
                     (str_lower (py_suffix (path_name src))) variant_tags datas
                @ skip_events src x))"
      and len: "length datas \<le> 8" "(x = None) = (length datas = 8)"
      by blast
    let ?evs = "Mkdir ?d # copy_events E c src ?d
                @ variant_writes ?d (py_stem (path_name src))
                     (str_lower (py_suffix (path_name src))) variant_tags datas
                @ skip_events src x"
    have cw: "count_writes ?evs = length datas"
      using len(1)
      by (simp add: count_writes_simps count_writes_variant_writes count_writes_copy_events
          count_writes_skip_events variant_tags_def)
    have sk: "\<forall>e. Print (Skipping src e) \<in> set ?evs \<longrightarrow> x \<noteq> None"
      by (auto simp: copy_events_def variant_writes_def skip_events_def split: option.splits)
    have "\<forall>p b. WriteBytes p b \<in> set ?evs \<longrightarrow> files (after E st ?evs) p \<noteq> None"
      using files_after_created[of _ ?evs _ E st] by (metis created.simps(2))
    moreover have "\<forall>e. Print (Skipping src e) \<in> set ?evs \<longrightarrow> count_writes ?evs < 8"
      using sk len unfolding cw by auto
    moreover have "count_writes ?evs \<le> 8" using len unfolding cw by simp
    ultimately show ?thesis using pf None
      by (intro exI[of _ ?evs]) (simp add: num_augmented_after)
  qed
next
  assume ne: "discover E inp \<noteq> []"
  let ?w0 = "w\<lparr>num_originals := 0, num_augmented := 0\<rparr>"
  from process_files_after[of E inp out c "discover E inp" ?w0] obtain evs where
    pf: "process_files E inp out c (discover E inp) ?w0
          = (first_prep_error E inp out (discover E inp), after E ?w0 evs)"
    by blast
  let ?st1 = "after E ?w0 evs"
  have 1: "num_augmented ?st1 = count_writes evs" by (simp add: num_augmented_after)
  have 2: "num_originals ?st1 = count_copies evs" by (simp add: num_originals_after)
  have 3: "\<forall>p b. WriteBytes p b \<in> set evs \<longrightarrow> files ?st1 p \<noteq> None"
    using files_after_created[of _ evs _ E ?w0] by (metis created.simps(2))
  have 4: "process_dataset E inp out c w =
               (case first_prep_error E inp out (discover E inp) of
                  Some e \<Rightarrow> (Raised e, ?st1)
                | None \<Rightarrow>
                    (Returned 0,
                     after E ?st1 [Print (Completed out),
                                  Print (DataCounts (count_copies evs) (count_writes evs))]))"
    using ne pf 1 2
    by (simp add: process_dataset_def Let_def print_after[of _ _ E] after_append
        split: option.splits)
  show "\<exists>evs st1. st1 = after E ?w0 evs
           \<and> num_augmented st1 = count_writes evs \<and> num_originals st1 = count_copies evs
           \<and> (\<forall>p b. WriteBytes p b \<in> set evs \<longrightarrow> files st1 p \<noteq> None)
           \<and> process_dataset E inp out c w =
               (case first_prep_error E inp out (discover E inp) of
                  Some e \<Rightarrow> (Raised e, st1)
                | None \<Rightarrow>
                    (Returned 0,
                     after E st1 [Print (Completed out),
                                  Print (DataCounts (count_copies evs) (count_writes evs))]))"
    using 1 2 3 4 by (intro exI[of _ evs] exI[of _ ?st1]) blast
qed

theorem augmented_count_witness:
  "discover write_fail_env [''in''] \<noteq> []
   \<and> first_prep_error write_fail_env [''in''] [''out''] (discover write_fail_env [''in'']) = None
   \<and> (\<exists>evs. process_dataset write_fail_env [''in''] [''out''] True state0 =
         (Returned 0,
          after write_fail_env
            (after write_fail_env (state0\<lparr>num_originals := 0, num_augmented := 0\<rparr>) evs)
            [Print (Completed [''out'']), Print (DataCounts (count_copies evs) (count_writes evs))])
       \<and> count_writes evs = 3)
   \<and> Print (DataCounts 1 3)
       \<in> set (trace (snd (process_dataset write_fail_env [''in''] [''out''] True state0)))
   \<and> Print (Skipping car (OSError ''disk full''))
       \<in> set (trace (snd (process_dataset write_fail_env [''in''] [''out''] True state0)))"
proof -
  have h1: "discover write_fail_env [''in''] \<noteq> []" by (simp add: write_fail_discover)
  have h2: "first_prep_error write_fail_env [''in''] [''out''] (discover write_fail_env [''in'']) = None"
    unfolding write_fail_discover by (simp add: prep_error_def relative_to_def env_defs)
  from augmented_count[of write_fail_env "[''in'']" "[''out'']" True car state0 state0] h1
  obtain evs st1 where
    A: "st1 = after write_fail_env (state0\<lparr>num_originals := 0, num_augmented := 0\<rparr>) evs"
       "num_augmented st1 = count_writes evs"
       "process_dataset write_fail_env [''in''] [''out''] True state0 =
               (case first_prep_error write_fail_env [''in''] [''out''] (discover write_fail_env [''in'']) of
                  Some e \<Rightarrow> (Raised e, st1)
                | None \<Rightarrow>
                    (Returned 0,
                     after write_fail_env st1 [Print (Completed [''out'']),
                                  Print (DataCounts (count_copies evs) (count_writes evs))]))"
    by blast
  have run: "process_dataset write_fail_env [''in''] [''out''] True state0 =
         (Returned 0, after write_fail_env st1 [Print (Completed [''out'']),
                                  Print (DataCounts (count_copies evs) (count_writes evs))])"
    using A(3) h2 by simp
  have "num_augmented (snd (process_dataset write_fail_env [''in''] [''out''] True state0))
      = count_writes evs"
    unfolding run using A(2) by (simp add: num_augmented_after count_writes_simps)
  then have c3: "count_writes evs = 3" using write_fail_run_count by simp
  have t: "Print (DataCounts 1 3)
       \<in> set (trace (snd (process_dataset write_fail_env [''in''] [''out''] True state0)))"
     "Print (Skipping car (OSError ''disk full''))
       \<in> set (trace (snd (process_dataset write_fail_env [''in''] [''out''] True state0)))"
    by (simp_all add: write_fail_run_trace car_def)
  from h1 h2 run c3 t A(1) show ?thesis by blast
qed

subsection \<open>The extension of the output files\<close>

text \<open>
  Claim C2, amended. For an accepted source with extension \<open>sfx\<close>, every
  variant file written has the extension \<open>sfx\<close> in lower case, which is \<open>sfx\<close>
  itself when that is lower case already, and its bytes are what the encoder
  returned for the format \<open>fmt\<close> that the table gives for \<open>sfx\<close> in lower
  case, with quality 95 and optimisation for JPEG and the encoder's defaults
  otherwise. That format is JPEG exactly for \<open>.jpg\<close> and \<open>.jpeg\<close>, PNG for
  \<open>.png\<close>, BMP for \<open>.bmp\<close>, TIFF for \<open>.tif\<close> and \<open>.tiff\<close>, WEBP for
  \<open>.webp\<close>; the fallback to PNG is never taken. The copy of the original
  keeps the source's whole name.
\<close>

theorem variant_extension:
  assumes "true_image E src" and "sfx = py_suffix (path_name src)" and "fmt = save_format sfx"
  shows "(\<exists>evs. process_file E inp out c src st = (prep_error E inp out src, after E st evs)
     \<and> (\<forall>p b. WriteBytes p b \<in> set evs \<longrightarrow>
           py_suffix (path_name p) = str_lower sfx
           \<and> (str_lower sfx = sfx \<longrightarrow> py_suffix (path_name p) = sfx)
           \<and> (\<exists>v. pil_save E v fmt (if fmt = ''JPEG'' then Some 95 else None) (fmt = ''JPEG'')
                  = Inr b))
     \<and> (\<forall>s p. Copy2 s p \<in> set evs \<longrightarrow> s = src \<and> path_name p = path_name src))
     \<and> map_of format_table (str_lower sfx) = Some fmt
     \<and> (fmt = ''JPEG'' \<longleftrightarrow> str_lower sfx = ''.jpg'' \<or> str_lower sfx = ''.jpeg'')
     \<and> (fmt = ''PNG'' \<longleftrightarrow> str_lower sfx = ''.png'')
     \<and> (fmt = ''BMP'' \<longleftrightarrow> str_lower sfx = ''.bmp'')
     \<and> (fmt = ''TIFF'' \<longleftrightarrow> str_lower sfx = ''.tif'' \<or> str_lower sfx = ''.tiff'')
     \<and> (fmt = ''WEBP'' \<longleftrightarrow> str_lower sfx = ''.webp'')"
proof -
  let ?ext = "str_lower sfx"
  have rec: "?ext \<in> recognize_formats"
    using true_image_ext[OF assms(1)] assms(2) by simp
  have fmt: "save_format ?ext = fmt" using assms(3) by (simp add: save_format_lower)
  note pins = format_of_recognized[OF rec, unfolded fmt]
  have ev: "\<exists>evs. process_file E inp out c src st = (prep_error E inp out src, after E st evs)
     \<and> (\<forall>p b. WriteBytes p b \<in> set evs \<longrightarrow>
           py_suffix (path_name p) = ?ext
           \<and> (?ext = sfx \<longrightarrow> py_suffix (path_name p) = sfx)
           \<and> (\<exists>v. pil_save E v fmt (if fmt = ''JPEG'' then Some 95 else None) (fmt = ''JPEG'')
                  = Inr b))
     \<and> (\<forall>s p. Copy2 s p \<in> set evs \<longrightarrow> s = src \<and> path_name p = path_name src)"
  proof (cases "prep_error E inp out src")
    case (Some e)
    from process_file_raises[OF this, of c st] Some show ?thesis
      by (intro exI[of _ "[]"]) (simp add: after_Nil)
  next
    case None
    then obtain rel where r: "relative_to src inp = Inr rel"
        "mkdir_fault E (parent (joinpath out rel)) = None"
      by (auto simp: prep_error_def split: sum.splits)
    let ?d = "parent (joinpath out rel)"
    define x where "x = fst (augment_body E src ?d (after E st (Mkdir ?d # copy_events E c src ?d)))"
    from process_file_after[OF r, of c st, folded x_def, folded assms(2)] obtain datas where
      pf: "process_file E inp out c src st =
         (None, after E st (Mkdir ?d # copy_events E c src ?d
                @ variant_writes ?d (py_stem (path_name src)) ?ext variant_tags datas
                @ skip_events src x))"
      and prov: "datas \<noteq> [] \<longrightarrow>
          (\<exists>im0 im base b. pil_open E src = Inr im0 \<and> pil_load E im0 = Inr im
             \<and> normalize_spec E default_background im = Inr base
             \<and> list_all2 (\<lambda>c d. variant_bytes E ?ext base c = Inr d)
                  (take (length datas) (map snd (augmentations b))) datas)"
      by blast
    let ?evs = "Mkdir ?d # copy_events E c src ?d
                @ variant_writes ?d (py_stem (path_name src)) ?ext variant_tags datas
                @ skip_events src x"
    have inw: "WriteBytes p b \<in> set (variant_writes ?d (py_stem (path_name src)) ?ext variant_tags datas)"
      if "WriteBytes p b \<in> set ?evs" for p b
      using that by (auto simp: copy_events_def skip_events_def split: option.splits)
    have w: "py_suffix (path_name p) = ?ext" if "WriteBytes p b \<in> set ?evs" for p b
    proof -
      from inw[OF that] obtain tag where "p = joinpath ?d [out_name (py_stem (path_name src)) tag ?ext]"
        using created_variant_writes[of "WriteBytes p b" ?d _ ?ext variant_tags datas p] by auto
      then show ?thesis
        using py_suffix_out_name[OF rec] by (simp add: path_name_joinpath)
    qed
    have enc: "\<exists>v. pil_save E v fmt (if fmt = ''JPEG'' then Some 95 else None) (fmt = ''JPEG'') = Inr b"
      if "WriteBytes p b \<in> set ?evs" for p b
    proof -
      have b: "b \<in> set datas" using variant_writes_data[OF inw[OF that]] .
      then have "datas \<noteq> []" by auto
      with prov obtain base r where
        "list_all2 (\<lambda>c d. variant_bytes E ?ext base c = Inr d)
                  (take (length datas) (map snd (augmentations r))) datas"
        by blast
      from list_all2_right_ex[OF this b] obtain cl where "variant_bytes E ?ext base cl = Inr b"
        by blast
      from variant_bytes_parts[OF this] obtain v where "save_image E v ?ext = Inr b" by blast
      then show ?thesis unfolding save_image_pil_save fmt by blast
    qed
    have cp: "s = src \<and> path_name p = path_name src" if "Copy2 s p \<in> set ?evs" for s p
    proof -
      from that have "Copy2 s p \<in> set (copy_events E c src ?d)"
        by (auto simp: variant_writes_def skip_events_def split: option.splits)
      then show ?thesis
        by (auto simp: copy_events_def path_name_joinpath split: if_splits option.splits)
    qed
    have 1: "process_file E inp out c src st = (prep_error E inp out src, after E st ?evs)"
      using pf None by simp
    have 2: "\<forall>p b. WriteBytes p b \<in> set ?evs \<longrightarrow>
           py_suffix (path_name p) = ?ext
           \<and> (?ext = sfx \<longrightarrow> py_suffix (path_name p) = sfx)
           \<and> (\<exists>v. pil_save E v fmt (if fmt = ''JPEG'' then Some 95 else None) (fmt = ''JPEG'')
                  = Inr b)"
      using w enc by metis
    have 3: "\<forall>s p. Copy2 s p \<in> set ?evs \<longrightarrow> s = src \<and> path_name p = path_name src"
      using cp by blast
    from 1 2 3 show ?thesis by (intro exI[of _ ?evs] conjI)
  qed
  show ?thesis by (rule conjI[OF ev pins])
qed

theorem variant_extension_witness:
  "true_image tagging_env boat \<and> ''.JPG'' = py_suffix (path_name boat)
   \<and> ''JPEG'' = save_format ''.JPG''
   \<and> (\<exists>evs. process_file tagging_env [''in''] [''out''] False boat state0
               = (None, after tagging_env state0 evs)
         \<and> (\<forall>p b. WriteBytes p b \<in> set evs \<longrightarrow>
               py_suffix (path_name p) = ''.jpg''
               \<and> (\<exists>v. pil_save tagging_env v ''JPEG'' (Some 95) True = Inr b)))
   \<and> trace (snd (process_file tagging_env [''in''] [''out''] False boat state0)) =
       Mkdir [''out'']
       # variant_writes [''out''] ''boat'' ''.jpg'' variant_tags (replicate 8 [4, 95, 255, 255, 255])"
proof -
  have t: "true_image tagging_env boat" by (rule boat_accepted)
  have e1: "''.JPG'' = py_suffix (path_name boat)"
    by (simp add: boat_def path_name_def py_suffix_def has_suffix_def after_dot_def)
  have e2: "str_lower ''.JPG'' = ''.jpg''"
    by (simp add: str_lower_def lower_char_def)
  have f: "''JPEG'' = save_format ''.JPG''"
    by (simp add: save_format_def format_table_def e2)
  have p: "prep_error tagging_env [''in''] [''out''] boat = None"
    by (simp add: prep_error_def relative_to_def env_defs tagging_env_def boat_def)
  note V = variant_extension[OF t e1 f, of "[''in'']" "[''out'']" False state0,
      THEN conjunct1, unfolded e2 p]
  from V obtain evs where
    A: "process_file tagging_env [''in''] [''out''] False boat state0
          = (None, after tagging_env state0 evs)"
    and B: "\<forall>p b. WriteBytes p b \<in> set evs \<longrightarrow>
           py_suffix (path_name p) = ''.jpg''
           \<and> (''.jpg'' = ''.JPG'' \<longrightarrow> py_suffix (path_name p) = ''.JPG'')
           \<and> (\<exists>v. pil_save tagging_env v ''JPEG''
                    (if ''JPEG'' = ''JPEG'' then Some 95 else None) (''JPEG'' = ''JPEG'') = Inr b)"
    by (elim exE conjE) (rule that)
  have "\<forall>p b. WriteBytes p b \<in> set evs \<longrightarrow>
               py_suffix (path_name p) = ''.jpg''
               \<and> (\<exists>v. pil_save tagging_env v ''JPEG'' (Some 95) True = Inr b)"
    using B by simp
  with A have "\<exists>evs. process_file tagging_env [''in''] [''out''] False boat state0
               = (None, after tagging_env state0 evs)
         \<and> (\<forall>p b. WriteBytes p b \<in> set evs \<longrightarrow>
               py_suffix (path_name p) = ''.jpg''
               \<and> (\<exists>v. pil_save tagging_env v ''JPEG'' (Some 95) True = Inr b))"
    by (intro exI[of _ evs] conjI)
  with t e1 f boat_trace show ?thesis by (intro conjI)
qed

text \<open>
  The claim as it was stated fails for an extension with a capital letter: the
  accepted source \<open>car.PNG\<close> has the variant \<open>car__blur.png\<close>.
\<close>

theorem variant_extension_counterexample:
  "true_image demo_env car \<and> py_suffix (path_name car) = ''.PNG''
   \<and> WriteBytes [''out'', ''photos'', ''car__blur.png''] [255, 255, 255]
       \<in> set (trace (snd (process_dataset demo_env [''in''] [''out''] True state0)))
   \<and> py_suffix (path_name [''out'', ''photos'', ''car__blur.png'']) = ''.png''
   \<and> ''.png'' \<noteq> ''.PNG''"
  by (simp add: demo_run_trace)
     (simp add: true_image_def car_def path_name_def py_suffix_def has_suffix_def after_dot_def
        str_lower_def lower_char_def recognize_formats_def demo_env_def)

subsection \<open>The JPEG guard\<close>

text \<open>
  Claim C5. \<^verbatim>\<open>guarantee_rgb_for_jpeg\<close> computes \<open>jpeg_safe\<close> on the object it
  is given and changes no existing object. When the extension is \<open>.jpg\<close> or
  \<open>.jpeg\<close> and the mode is neither RGB nor L, the result is a new object of
  mode RGB; in every other case it is the given reference in the unchanged
  store. In the pipeline of one source, every variant written is the encoding
  of an image \<open>v\<close> obtained from the base image by one library call and the
  guard; with a JPEG extension \<open>v\<close> has mode RGB or L, so it has no alpha band.
  The base image is the normalised source: for a source of mode RGBA or LA it
  is the source laid over white, whatever the extension.
\<close>

theorem jpeg_safety:
  assumes "a < next_ref h"
  shows "(case guarantee_rgb_for_jpeg E a ext h of
      Inl e \<Rightarrow> jpeg_safe E (objs h a) ext = Inl e
    | Inr (r, h') \<Rightarrow>
        jpeg_safe E (objs h a) ext = Inr (objs h' r)
        \<and> (\<forall>x. x < next_ref h \<longrightarrow> objs h' x = objs h x)
        \<and> (if (ext = ''.jpg'' \<or> ext = ''.jpeg'')
               \<and> im_mode (objs h a) \<noteq> ''RGB'' \<and> im_mode (objs h a) \<noteq> ''L''
            then r = next_ref h \<and> im_mode (objs h' r) = ''RGB''
            else r = a \<and> h' = h))
   \<and> (\<exists>datas.
        augment_step E src dest st =
          after E st (variant_writes dest (py_stem (path_name src))
                        (str_lower (py_suffix (path_name src))) variant_tags datas
                      @ skip_events src (fst (augment_body E src dest st)))
        \<and> (datas \<noteq> [] \<longrightarrow>
             (\<exists>im0 im base b. pil_open E src = Inr im0 \<and> pil_load E im0 = Inr im
                \<and> normalize_spec E default_background im = Inr base
                \<and> (im_mode im = ''RGBA'' \<or> im_mode im = ''LA''
                     \<longrightarrow> composite_over E [255, 255, 255] im = Inr base)
                \<and> list_all2
                     (\<lambda>c d. \<exists>t v. call_result E c base = Inr t
                         \<and> jpeg_safe E t (str_lower (py_suffix (path_name src))) = Inr v
                         \<and> save_image E v (str_lower (py_suffix (path_name src))) = Inr d
                         \<and> (str_lower (py_suffix (path_name src)) = ''.jpg''
                              \<or> str_lower (py_suffix (path_name src)) = ''.jpeg''
                             \<longrightarrow> im_mode v = ''RGB'' \<or> im_mode v = ''L''))
                     (take (length datas) (map snd (augmentations b))) datas)))"
proof -
  let ?ext = "str_lower (py_suffix (path_name src))"
  let ?P = "\<lambda>base c d. \<exists>t v. call_result E c base = Inr t
                         \<and> jpeg_safe E t ?ext = Inr v \<and> save_image E v ?ext = Inr d
                         \<and> (?ext = ''.jpg'' \<or> ?ext = ''.jpeg''
                             \<longrightarrow> im_mode v = ''RGB'' \<or> im_mode v = ''L'')"
  from augment_step_after[of E src dest st] obtain datas where
    A: "augment_step E src dest st =
          after E st (variant_writes dest (py_stem (path_name src)) ?ext variant_tags datas
                      @ skip_events src (fst (augment_body E src dest st)))"
    and B: "datas \<noteq> [] \<longrightarrow>
          (\<exists>im0 im base b. pil_open E src = Inr im0 \<and> pil_load E im0 = Inr im
             \<and> normalize_spec E default_background im = Inr base
             \<and> list_all2 (\<lambda>c d. variant_bytes E ?ext base c = Inr d)
                  (take (length datas) (map snd (augmentations b))) datas)"
    by blast
  have C: "datas \<noteq> [] \<longrightarrow>
             (\<exists>im0 im base b. pil_open E src = Inr im0 \<and> pil_load E im0 = Inr im
                \<and> normalize_spec E default_background im = Inr base
                \<and> (im_mode im = ''RGBA'' \<or> im_mode im = ''LA''
                     \<longrightarrow> composite_over E [255, 255, 255] im = Inr base)
                \<and> list_all2 (?P base) (take (length datas) (map snd (augmentations b))) datas)"
  proof
    assume "datas \<noteq> []"
    with B obtain im0 im base b where
      o: "pil_open E src = Inr im0" "pil_load E im0 = Inr im"
         "normalize_spec E default_background im = Inr base"
      and l: "list_all2 (\<lambda>c d. variant_bytes E ?ext base c = Inr d)
                  (take (length datas) (map snd (augmentations b))) datas"
      by blast
    have l': "list_all2 (?P base) (take (length datas) (map snd (augmentations b))) datas"
      using l by (rule list_all2_mono) (rule variant_bytes_parts)
    have w: "im_mode im = ''RGBA'' \<or> im_mode im = ''LA''
                     \<longrightarrow> composite_over E [255, 255, 255] im = Inr base"
      using o(3) normalize_spec_alpha[of im E default_background]
      by (auto simp: default_background_def)
    from o l' w show "\<exists>im0 im base b. pil_open E src = Inr im0 \<and> pil_load E im0 = Inr im
                \<and> normalize_spec E default_background im = Inr base
                \<and> (im_mode im = ''RGBA'' \<or> im_mode im = ''LA''
                     \<longrightarrow> composite_over E [255, 255, 255] im = Inr base)
                \<and> list_all2 (?P base) (take (length datas) (map snd (augmentations b))) datas"
      by blast
  qed
  from A C have "\<exists>datas.
        augment_step E src dest st =
          after E st (variant_writes dest (py_stem (path_name src)) ?ext variant_tags datas
                      @ skip_events src (fst (augment_body E src dest st)))
        \<and> (datas \<noteq> [] \<longrightarrow>
             (\<exists>im0 im base b. pil_open E src = Inr im0 \<and> pil_load E im0 = Inr im
                \<and> normalize_spec E default_background im = Inr base
                \<and> (im_mode im = ''RGBA'' \<or> im_mode im = ''LA''
                     \<longrightarrow> composite_over E [255, 255, 255] im = Inr base)
                \<and> list_all2 (?P base) (take (length datas) (map snd (augmentations b))) datas))"
    by (intro exI[of _ datas] conjI)
  with guarantee_cases[OF assms, of E ext] show ?thesis by (intro conjI)
qed

theorem jpeg_safety_witness:
  "(0::nat) < next_ref demo_heap
   \<and> (case guarantee_rgb_for_jpeg demo_env 0 ''.jpg'' demo_heap of
        Inl e \<Rightarrow> False
      | Inr (r, h') \<Rightarrow> r = 1 \<and> im_mode (objs h' r) = ''RGB'' \<and> objs h' 0 = demo_image)
   \<and> (case guarantee_rgb_for_jpeg demo_env 0 ''.png'' demo_heap of
        Inl e \<Rightarrow> False
      | Inr (r, h') \<Rightarrow> r = 0 \<and> h' = demo_heap)
   \<and> composite_over demo_env [255, 255, 255] demo_image
       = Inr \<lparr>im_mode = ''RGB'', im_size = (1, 1), im_data = [255, 255, 255]\<rparr>
   \<and> trace (augment_step demo_env [''in'', ''boat.jpg''] [''out''] state0)
       = variant_writes [''out''] ''boat'' ''.jpg'' variant_tags (replicate 8 [255, 255, 255])"
proof -
  have h: "(0::nat) < next_ref demo_heap" by (simp add: demo_heap_def alloc_def)
  have n: "next_ref demo_heap = 1" "objs demo_heap 0 = demo_image"
    by (simp_all add: demo_heap_def alloc_def heap0_def)
  have m: "im_mode demo_image = ''RGBA''" by (simp add: demo_image_def)
  from jpeg_safety[OF h, of demo_env "''.jpg''", THEN conjunct1]
  have j: "case guarantee_rgb_for_jpeg demo_env 0 ''.jpg'' demo_heap of
        Inl e \<Rightarrow> False
      | Inr (r, h') \<Rightarrow> r = 1 \<and> im_mode (objs h' r) = ''RGB'' \<and> objs h' 0 = demo_image"
    using h
    by (auto simp: n m jpeg_safe_def converted_def demo_env_def split: sum.splits)
  from jpeg_safety[OF h, of demo_env "''.png''", THEN conjunct1]
  have p: "case guarantee_rgb_for_jpeg demo_env 0 ''.png'' demo_heap of
        Inl e \<Rightarrow> False
      | Inr (r, h') \<Rightarrow> r = 0 \<and> h' = demo_heap"
    by (auto simp: n m jpeg_safe_def split: sum.splits)
  have c: "composite_over demo_env [255, 255, 255] demo_image
       = Inr \<lparr>im_mode = ''RGB'', im_size = (1, 1), im_data = [255, 255, 255]\<rparr>"
    by (simp add: composite_over_def converted_def solid_image_def demo_env_def demo_image_def)
  have t: "trace (augment_step demo_env [''in'', ''boat.jpg''] [''out''] state0)
       = variant_writes [''out''] ''boat'' ''.jpg'' variant_tags (replicate 8 [255, 255, 255])"
    by (simp add: run_defs env_defs event_defs Let_def numeral_eq_Suc)
  from h j p c t show ?thesis by (intro conjI)
qed

subsection \<open>Determinism\<close>

text \<open>
  Claim C8. Run \<^verbatim>\<open>process_dataset\<close> twice in the same environment, on the
  same input root, into two output roots that start alike (two fresh roots
  do). If the file system treats the two roots alike, and discovery does not
  yield the input root itself (\<^verbatim>\<open>rglob\<close> never does), then both runs end the
  same way, and under the two roots the same relative paths are files with
  the same bytes and the same relative paths are directories; a run that
  processed files also reports the same two counts. The decoder, the
  transforms and the encoder are functions of \<open>env\<close>, the same in both runs.
\<close>

theorem two_runs_same_tree:
  assumes "root_independent E out1 out2" and "inp \<notin> set (discover E inp)"
    and "same_tree out1 out2 st1 st2"
  shows "fst (process_dataset E inp out1 c st1) = fst (process_dataset E inp out2 c st2)
     \<and> same_tree out1 out2 (snd (process_dataset E inp out1 c st1))
                            (snd (process_dataset E inp out2 c st2))
     \<and> (discover E inp \<noteq> [] \<longrightarrow>
          num_originals (snd (process_dataset E inp out1 c st1))
            = num_originals (snd (process_dataset E inp out2 c st2))
          \<and> num_augmented (snd (process_dataset E inp out1 c st1))
            = num_augmented (snd (process_dataset E inp out2 c st2)))"
proof (cases "discover E inp = []")
  case True
  then show ?thesis
    using assms(3) by (simp add: process_dataset_def same_tree_def print_def)
next
  case False
  let ?a = "st1\<lparr>num_originals := 0, num_augmented := 0\<rparr>"
  let ?b = "st2\<lparr>num_originals := 0, num_augmented := 0\<rparr>"
  have start: "alike out1 out2 ?a ?b"
    using assms(3) by (simp add: alike_def same_tree_def)
  obtain x1 s1 where p1: "process_files E inp out1 c (discover E inp) ?a = (x1, s1)" by force
  obtain x2 s2 where p2: "process_files E inp out2 c (discover E inp) ?b = (x2, s2)" by force
  from process_files_alike[OF assms(1) start assms(2), of c] p1 p2
  have x: "x1 = x2" and al: "alike out1 out2 s1 s2" by simp_all
  show ?thesis
  proof (cases x1)
    case None
    have "alike out1 out2
            (print (DataCounts (num_originals s1) (num_augmented s1)) (print (Completed out1) s1))
            (print (DataCounts (num_originals s2) (num_augmented s2)) (print (Completed out2) s2))"
      by (intro alike_print al)
    then show ?thesis
      using False p1 p2 x None by (simp add: process_dataset_def alike_def)
  next
    case (Some e)
    then show ?thesis
      using False p1 p2 x al by (simp add: process_dataset_def alike_def)
  qed
qed

theorem two_runs_same_tree_witness:
  "root_independent demo_env [''out1''] [''out2'']
   \<and> [''in''] \<notin> set (discover demo_env [''in''])
   \<and> same_tree [''out1''] [''out2''] state0 state0
   \<and> files (snd (process_dataset demo_env [''in''] [''out2''] True state0))
        (joinpath [''out2''] [''photos'', ''car__blur.png'']) = Some [255, 255, 255]
   \<and> fst (process_dataset demo_env [''in''] [''out1''] True state0)
       = fst (process_dataset demo_env [''in''] [''out2''] True state0)"
proof -
  have h1: "root_independent demo_env [''out1''] [''out2'']" by (rule demo_root_independent)
  have h2: "[''in''] \<notin> set (discover demo_env [''in''])" by (rule demo_root_not_discovered)
  have h3: "same_tree [''out1''] [''out2''] state0 state0"
    by (simp add: same_tree_def state0_def)
  note t = two_runs_same_tree[OF h1 h2 h3, of True]
  from t have "files (snd (process_dataset demo_env [''in''] [''out1''] True state0))
        (joinpath [''out1''] [''photos'', ''car__blur.png''])
      = files (snd (process_dataset demo_env [''in''] [''out2''] True state0))
        (joinpath [''out2''] [''photos'', ''car__blur.png''])"
    unfolding same_tree_def by blast
  then have f: "files (snd (process_dataset demo_env [''in''] [''out2''] True state0))
        (joinpath [''out2''] [''photos'', ''car__blur.png'']) = Some [255, 255, 255]"
    using demo_run_file by (simp add: joinpath_def)
  from t have o: "fst (process_dataset demo_env [''in''] [''out1''] True state0)
       = fst (process_dataset demo_env [''in''] [''out2''] True state0)"
    by blast
  from h1 h2 h3 f o show ?thesis by (intro conjI)
qed

end
